(* ===== verification/Ftpd_Prelude.thy ===== *)
theory Ftpd_Prelude
  imports Main "HOL-Library.Word"
begin

text \<open>
  What every component shares: the named collections of the development, the machine
  integers, the abnormal ends of the process (\<open>crash\<close>) with the sequencing of fallible
  steps, the character functions of \<^verbatim>\<open><cctype>\<close>, decimal printing and reading
  (\<^verbatim>\<open>std::to_string\<close>, \<^verbatim>\<open>std::stoi\<close>), the extraction of words and fields from a
  string stream, and the two operations of \<^verbatim>\<open>std::filesystem::path\<close> the server uses.
\<close>

named_theorems stepsimps \<open>equations that unfold one step of the server\<close>
named_theorems framesimps \<open>what a step leaves unchanged\<close>

subsection \<open>Types\<close>

type_synonym u16 = "16 word"
type_synonym u32 = "32 word"
type_synonym u64 = "64 word"
type_synonym path = string

text \<open>
  The ways a handler can fail to return normally: an exception of \<^verbatim>\<open>std::filesystem\<close>,
  of asio (\<^verbatim>\<open>system_error\<close>), of the JSON library or of another standard function that
  nothing in the code catches, a null pointer that is dereferenced, an object used after
  its lifetime, \<^verbatim>\<open>front()\<close> of an empty queue, a remainder by zero, and a loop that
  is still running when the outcomes it was given are used up.
\<close>

datatype crash =
    FsException | SystemError | JsonException | StdException | LogicError
  | NullDeref | UseAfterFree | EmptyQueue | DivByZero | Hang

subsection \<open>Fallible steps\<close>

fun sbind :: "'e + 'a \<Rightarrow> ('a \<Rightarrow> 'e + 'b) \<Rightarrow> 'e + 'b" where
  "sbind (Inl e) f = Inl e"
| "sbind (Inr x) f = f x"

definition sall :: "('a \<Rightarrow> bool) \<Rightarrow> 'e + 'a \<Rightarrow> bool" where
  "sall P r = (case r of Inl e \<Rightarrow> True | Inr x \<Rightarrow> P x)"

lemma sbind_cong [fundef_cong]:
  "m = m' \<Longrightarrow> (\<And>x. m' = Inr x \<Longrightarrow> f x = f' x) \<Longrightarrow> sbind m f = sbind m' f'"
  by (cases m') auto

lemma sall_simps [simp]: "sall P (Inl e) = True" "sall P (Inr x) = P x"
  by (simp_all add: sall_def)

lemma sall_bind [simp]: "sall P (sbind m f) = sall (\<lambda>x. sall P (f x)) m"
  by (cases m) simp_all

lemma sall_mono: "sall P m \<Longrightarrow> (\<And>x. P x \<Longrightarrow> Q x) \<Longrightarrow> sall Q m"
  by (cases m) auto

lemma sall_conj: "sall P m \<Longrightarrow> sall Q m \<Longrightarrow> sall (\<lambda>x. P x \<and> Q x) m"
  by (cases m) auto

lemma sall_any: "(\<And>x. P x) \<Longrightarrow> sall P m"
  by (cases m) auto

lemma result_exists: "\<not> isl m \<Longrightarrow> \<exists>t. m = Inr t"
  by (cases m) simp_all

text \<open>Sequencing: with a fact about the first step, about a pair it returns, or without.\<close>

lemma sall_step: "sall P m \<Longrightarrow> (\<And>x. P x \<Longrightarrow> sall Q (f x)) \<Longrightarrow> sall Q (sbind m f)"
  by (cases m) simp_all

lemma sall_step2:
  "sall (\<lambda>(a, b). P a b) m \<Longrightarrow> (\<And>a b. P a b \<Longrightarrow> sall Q (f a b)) \<Longrightarrow> sall Q (sbind m (\<lambda>(a, b). f a b))"
  by (cases m) auto

lemma sall_skip: "(\<And>x. sall Q (f x)) \<Longrightarrow> sall Q (sbind m f)"
  by (cases m) simp_all

lemma sallD: "sall P m \<Longrightarrow> m = Inr x \<Longrightarrow> P x"
  by simp

lemma sallI: "(\<And>x. m = Inr x \<Longrightarrow> P x) \<Longrightarrow> sall P m"
  by (cases m) auto

lemma sall_True [simp]: "sall (\<lambda>x. True) m"
  by (cases m) auto

lemma sbind_Inr_iff: "sbind m f = Inr y \<longleftrightarrow> (\<exists>x. m = Inr x \<and> f x = Inr y)"
  by (cases m) auto

lemma sall_if [simp]:
  "sall P (if b then x else y) = (if b then sall P x else sall P y)"
  by simp

subsection \<open>State machines\<close>

text \<open>
  The contract of an invariant: it holds where the machine starts and every step keeps it.
\<close>

locale machine_invariant =
  fixes start :: "'s \<Rightarrow> bool" and step :: "'s \<Rightarrow> 's \<Rightarrow> bool" and inv :: "'s \<Rightarrow> bool"
  assumes start_inv: "start s \<Longrightarrow> inv s"
    and step_inv: "inv s \<Longrightarrow> step s t \<Longrightarrow> inv t"
begin

lemma steps_inv: "step\<^sup>*\<^sup>* s t \<Longrightarrow> inv s \<Longrightarrow> inv t"
  by (induction rule: rtranclp_induct) (auto intro: step_inv)

lemma reached_inv: "start s \<Longrightarrow> step\<^sup>*\<^sup>* s t \<Longrightarrow> inv t"
  by (rule steps_inv) (auto intro: start_inv)

end

subsection \<open>Characters\<close>

definition crlf :: string where
  "crlf = [CHR 0x0D, CHR 0x0A]"

definition quote :: string where
  "quote = [CHR 0x22]"

definition newline :: string where
  "newline = [CHR 0x0A]"

definition isspace :: "char \<Rightarrow> bool" where
  "isspace c = (let n = (of_char c :: nat) in 9 \<le> n \<and> n \<le> 13 \<or> n = 32)"

definition isdigit :: "char \<Rightarrow> bool" where
  "isdigit c = (let n = (of_char c :: nat) in 48 \<le> n \<and> n \<le> 57)"

definition toupper :: "char \<Rightarrow> char" where
  "toupper c = (let n = (of_char c :: nat) in if 97 \<le> n \<and> n \<le> 122 then char_of (n - 32) else c)"

definition tolower :: "char \<Rightarrow> char" where
  "tolower c = (let n = (of_char c :: nat) in if 65 \<le> n \<and> n \<le> 90 then char_of (n + 32) else c)"

lemma of_char_lt_256: "(of_char c :: nat) < 256"
  by simp

lemma toupper_idem [simp]: "toupper (toupper c) = toupper c"
proof -
  have "(of_char c :: nat) < 256" by (rule of_char_lt_256)
  then show ?thesis
    by (auto simp: toupper_def Let_def of_char_of)
qed

lemma isspace_toupper [simp]: "isspace (toupper c) = isspace c"
proof -
  have "(of_char c :: nat) < 256" by (rule of_char_lt_256)
  then show ?thesis
    by (auto simp: toupper_def isspace_def Let_def of_char_of)
qed

subsection \<open>Decimal numbers\<close>

definition digit_char :: "nat \<Rightarrow> char" where
  "digit_char d = char_of (48 + d)"

definition digit_val :: "char \<Rightarrow> nat" where
  "digit_val c = of_char c - 48"

fun show_nat :: "nat \<Rightarrow> string" where
  "show_nat n = (if n < 10 then [digit_char n] else show_nat (n div 10) @ [digit_char (n mod 10)])"

declare show_nat.simps [simp del]

definition show_int :: "int \<Rightarrow> string" where
  "show_int i = (if i < 0 then ''-'' @ show_nat (nat (- i)) else show_nat (nat i))"

definition read_nat :: "string \<Rightarrow> nat" where
  "read_nat s = foldl (\<lambda>n c. 10 * n + digit_val c) 0 s"

lemma isdigit_digit_char [simp]: "d < 10 \<Longrightarrow> isdigit (digit_char d)"
  by (simp add: isdigit_def digit_char_def Let_def of_char_of)

lemma digit_val_digit_char [simp]: "d < 10 \<Longrightarrow> digit_val (digit_char d) = d"
  by (simp add: digit_val_def digit_char_def of_char_of)

lemma show_nat_digits: "c \<in> set (show_nat n) \<Longrightarrow> isdigit c"
proof (induction n rule: show_nat.induct)
  case (1 n)
  then show ?case
    by (subst (asm) show_nat.simps) (auto split: if_splits)
qed

lemma show_nat_nonempty [simp]: "show_nat n \<noteq> []"
  by (subst show_nat.simps) simp

lemma read_show_nat [simp]: "read_nat (show_nat n) = n"
proof (induction n rule: show_nat.induct)
  case (1 n)
  show ?case
  proof (cases "n < 10")
    case True
    then show ?thesis by (subst show_nat.simps) (simp add: read_nat_def)
  next
    case False
    with 1 have "read_nat (show_nat (n div 10)) = n div 10" by simp
    with False show ?thesis
      by (subst show_nat.simps) (simp add: read_nat_def)
  qed
qed

lemma show_nat_inj: "show_nat m = show_nat n \<Longrightarrow> m = n"
  by (metis read_show_nat)

lemma not_digit_chars [simp]:
  "\<not> isdigit CHR '' ''" "\<not> isdigit CHR '',''" "\<not> isdigit CHR '')''" "\<not> isdigit CHR ''(''"
  "\<not> isdigit CHR ''.''" "\<not> isdigit CHR ''-''" "\<not> isdigit CHR ''+''"
  "\<not> isdigit (CHR 0x0D)" "\<not> isdigit (CHR 0x0A)"
  by (simp_all add: isdigit_def Let_def)

lemma isdigit_not_space: "isdigit c \<Longrightarrow> \<not> isspace c"
  by (auto simp: isdigit_def isspace_def Let_def)

text \<open>
  \<^verbatim>\<open>std::stoi\<close>: leading white space is skipped, a sign may follow, then the longest run
  of digits is read and the rest ignored; no digit (\<^verbatim>\<open>invalid_argument\<close>) and a value
  outside the type (\<^verbatim>\<open>out_of_range\<close>) throw. \<open>bits\<close> is the width of the type:
  32 for \<^verbatim>\<open>stoi\<close>, 64 for \<^verbatim>\<open>stol\<close>.
\<close>

definition sto :: "nat \<Rightarrow> string \<Rightarrow> crash + int" where
  "sto bits s =
     (let s1 = dropWhile isspace s;
          neg = (s1 \<noteq> [] \<and> hd s1 = CHR ''-'');
          s2 = (if s1 \<noteq> [] \<and> (hd s1 = CHR ''-'' \<or> hd s1 = CHR ''+'') then tl s1 else s1);
          ds = takeWhile isdigit s2;
          v = (if neg then - int (read_nat ds) else int (read_nat ds))
      in if ds = [] \<or> v < - (2 ^ (bits - 1)) \<or> 2 ^ (bits - 1) \<le> v then Inl StdException else Inr v)"

lemma takeWhile_digits_append:
  "(\<forall>c \<in> set ds. isdigit c) \<Longrightarrow> (rest = [] \<or> \<not> isdigit (hd rest)) \<Longrightarrow>
   takeWhile isdigit (ds @ rest) = ds"
  by (induction ds) (cases rest; auto)+

lemma sto_show_nat:
  assumes "int n < 2 ^ (bits - 1)" and "rest = [] \<or> \<not> isdigit (hd rest)"
  shows "sto bits (show_nat n @ rest) = Inr (int n)"
proof -
  obtain c cs where c: "show_nat n = c # cs"
    using show_nat_nonempty [of n] by (cases "show_nat n") auto
  have dc: "isdigit c" using show_nat_digits [of c n] c by simp
  then have "\<not> isspace c" by (rule isdigit_not_space)
  then have sp: "dropWhile isspace (show_nat n @ rest) = show_nat n @ rest" by (simp add: c)
  have "c \<noteq> CHR ''-''" "c \<noteq> CHR ''+''" using dc by auto
  moreover have "takeWhile isdigit (show_nat n @ rest) = show_nat n"
    using assms(2) show_nat_digits by (intro takeWhile_digits_append) auto
  moreover have "\<not> int n < - (2 ^ (bits - 1))"
    by (smt (verit) of_nat_0_le_iff zero_le_power)
  ultimately show ?thesis
    using assms(1) unfolding sto_def sp Let_def by (simp add: c [symmetric]) (simp add: c)
qed

subsection \<open>Streams of words and of fields\<close>

text \<open>
  \<^verbatim>\<open>is >> word\<close>: skip white space; fail at the end of the stream; else the word up to
  the next white space. \<open>read_words\<close> is the loop that collects the words.
\<close>

definition extract_word :: "string \<Rightarrow> (string \<times> string) option" where
  "extract_word s =
     (let t = dropWhile isspace s
      in if t = [] then None
         else Some (takeWhile (\<lambda>c. \<not> isspace c) t, dropWhile (\<lambda>c. \<not> isspace c) t))"

lemma extract_word_shorter: "extract_word s = Some (w, r) \<Longrightarrow> length r < length s"
proof -
  assume a: "extract_word s = Some (w, r)"
  define t where "t = dropWhile isspace s"
  have t: "t \<noteq> []" "r = dropWhile (\<lambda>c. \<not> isspace c) t"
    using a by (auto simp: extract_word_def Let_def t_def split: if_splits)
  have h: "\<not> isspace (hd t)" using t(1) hd_dropWhile t_def by blast
  have "length r \<le> length (tl t)"
    using t h by (cases t) (auto simp: length_dropWhile_le)
  moreover have "length t \<le> length s" by (simp add: t_def length_dropWhile_le)
  ultimately show ?thesis using t(1) by (cases t) auto
qed

function read_words :: "string \<Rightarrow> string list" where
  "read_words s = (case extract_word s of None \<Rightarrow> [] | Some (w, r) \<Rightarrow> w # read_words r)"
  by pat_completeness auto
termination
  by (relation "measure length") (auto dest: extract_word_shorter)

declare read_words.simps [simp del]

text \<open>\<^verbatim>\<open>std::getline(is, line, d)\<close> and the loop that collects the fields.\<close>

lemma drop_dropWhile_shorter: "s \<noteq> [] \<Longrightarrow> length (dropWhile P s) - Suc 0 < length s"
  using length_dropWhile_le [of P s] by (cases s) (auto simp: le_less_trans less_Suc_eq_le)

function read_fields :: "char \<Rightarrow> string \<Rightarrow> string list" where
  "read_fields d s =
     (if s = [] then []
      else takeWhile (\<lambda>c. c \<noteq> d) s # read_fields d (drop 1 (dropWhile (\<lambda>c. c \<noteq> d) s)))"
  by pat_completeness auto
termination
  by (relation "measure (\<lambda>(d, s). length s)") (auto intro: drop_dropWhile_shorter)

declare read_fields.simps [simp del]

fun join_with :: "string \<Rightarrow> string list \<Rightarrow> string" where
  "join_with d [] = []"
| "join_with d [w] = w"
| "join_with d (w # v # ws) = w @ d @ join_with d (v # ws)"

subsection \<open>Facts about the two streams\<close>

definition is_word :: "string \<Rightarrow> bool" where
  "is_word w = (w \<noteq> [] \<and> (\<forall>c \<in> set w. \<not> isspace c))"

lemma extract_word_word:
  assumes "is_word w" and "r = [] \<or> isspace (hd r)"
  shows "extract_word (w @ r) = Some (w, r)"
proof -
  have w: "w \<noteq> []" "\<And>c. c \<in> set w \<Longrightarrow> \<not> isspace c" using assms(1) by (auto simp: is_word_def)
  have r: "takeWhile (\<lambda>c. \<not> isspace c) r = []" "dropWhile (\<lambda>c. \<not> isspace c) r = r"
    using assms(2) by (cases r; auto)+
  from w have "dropWhile isspace (w @ r) = w @ r" by (cases w) auto
  with w r show ?thesis
    by (simp add: extract_word_def Let_def takeWhile_append2 dropWhile_append2)
qed

lemma extract_word_space: "isspace c \<Longrightarrow> extract_word (c # s) = extract_word s"
  by (simp add: extract_word_def)

lemma read_words_space: "isspace c \<Longrightarrow> read_words (c # s) = read_words s"
  by (simp add: read_words.simps [of "c # s"] read_words.simps [of s] extract_word_space)

lemma read_words_spaces: "\<forall>c \<in> set s. isspace c \<Longrightarrow> read_words s = []"
  by (induction s) (auto simp: read_words_space read_words.simps [of "[]"] extract_word_def)

lemma read_words_word:
  "is_word w \<Longrightarrow> r = [] \<or> isspace (hd r) \<Longrightarrow> read_words (w @ r) = w # read_words r"
  by (simp add: read_words.simps [of "w @ r"] extract_word_word)

lemma extract_word_is_word: "extract_word s = Some (w, r) \<Longrightarrow> is_word w"
proof -
  assume a: "extract_word s = Some (w, r)"
  define t where "t = dropWhile isspace s"
  have t: "t \<noteq> []" "w = takeWhile (\<lambda>c. \<not> isspace c) t"
    using a by (auto simp: extract_word_def Let_def t_def split: if_splits)
  have "\<not> isspace (hd t)" using t(1) hd_dropWhile t_def by blast
  with t show ?thesis by (cases t) (auto simp: is_word_def dest: set_takeWhileD)
qed

lemma read_words_are_words: "w \<in> set (read_words s) \<Longrightarrow> is_word w"
proof (induction s rule: read_words.induct)
  case (1 s)
  show ?case
  proof (cases "extract_word s")
    case None
    with "1.prems" show ?thesis by (simp add: read_words.simps [of s])
  next
    case (Some p)
    obtain v r where p: "p = (v, r)" by (cases p)
    with Some "1.prems" have "w = v \<or> w \<in> set (read_words r)"
      by (simp add: read_words.simps [of s])
    with "1.IH" Some p show ?thesis by (auto dest: extract_word_is_word)
  qed
qed

lemma join_with_Cons: "ws \<noteq> [] \<Longrightarrow> join_with d (w # ws) = w @ d @ join_with d ws"
  by (cases ws) auto

lemma isspace_blank [simp]: "isspace CHR '' ''" "isspace (CHR 0x0D)" "isspace (CHR 0x0A)"
  by (simp_all add: isspace_def Let_def)

text \<open>Words written out with single blanks, and a line end after them, are read back.\<close>

lemma read_words_join:
  "(\<forall>w \<in> set ws. is_word w) \<Longrightarrow> (\<forall>c \<in> set e. isspace c) \<Longrightarrow>
   read_words (join_with '' '' ws @ e) = ws"
proof (induction ws)
  case Nil
  then show ?case by (simp add: read_words_spaces)
next
  case (Cons w ws)
  show ?case
  proof (cases "ws = []")
    case True
    with Cons.prems show ?thesis
      using read_words_word [of w e] by (cases e) (auto simp: read_words_spaces)
  next
    case False
    with Cons show ?thesis
      by (simp add: join_with_Cons read_words_word read_words_space)
  qed
qed

lemma read_fields_Nil [simp]: "read_fields d [] = []"
  by (simp add: read_fields.simps)

lemma upto_delim [simp]:
  "d \<notin> set w \<Longrightarrow> takeWhile (\<lambda>c. c \<noteq> d) (w @ d # r) = w"
  "d \<notin> set w \<Longrightarrow> dropWhile (\<lambda>c. c \<noteq> d) (w @ d # r) = d # r"
  "d \<notin> set w \<Longrightarrow> takeWhile (\<lambda>c. c \<noteq> d) w = w"
  "d \<notin> set w \<Longrightarrow> dropWhile (\<lambda>c. c \<noteq> d) w = []"
  by (induction w) auto

lemma read_fields_field:
  "d \<notin> set w \<Longrightarrow> read_fields d (w @ d # r) = w # read_fields d r"
  by (subst read_fields.simps) simp

lemma read_fields_last: "d \<notin> set w \<Longrightarrow> w \<noteq> [] \<Longrightarrow> read_fields d w = [w]"
  by (subst read_fields.simps) simp

lemma read_fields_eq_Nil [simp]: "read_fields d s = [] \<longleftrightarrow> s = []"
  by (subst read_fields.simps) simp

text \<open>Fields joined with the delimiter give the string back, unless it ended with it.\<close>

lemma join_read_fields:
  "s \<noteq> [] \<Longrightarrow> last s \<noteq> d \<Longrightarrow> join_with [d] (read_fields d s) = s"
proof (induction d s rule: read_fields.induct)
  case (1 d s)
  show ?case
  proof (cases "d \<in> set s")
    case False
    with 1 show ?thesis by (simp add: read_fields_last)
  next
    case True
    then obtain w r where s: "s = w @ d # r" and w: "d \<notin> set w"
      by (metis split_list_first)
    with "1.prems" have r: "r \<noteq> []" "last r \<noteq> d" by (auto split: if_splits)
    have "drop 1 (dropWhile (\<lambda>c. c \<noteq> d) s) = r"
      using w by (simp add: s)
    then have "join_with [d] (read_fields d r) = r"
      using "1.IH" [OF "1.prems"(1)] r by metis
    with w r s show ?thesis by (simp add: read_fields_field join_with_Cons)
  qed
qed

lemma read_fields_join:
  "ws \<noteq> [] \<Longrightarrow> (\<forall>w \<in> set ws. d \<notin> set w) \<Longrightarrow> last ws \<noteq> [] \<Longrightarrow>
   read_fields d (join_with [d] ws) = ws"
proof (induction ws)
  case Nil
  then show ?case by simp
next
  case (Cons w ws)
  then show ?case
    by (cases "ws = []") (auto simp: read_fields_last join_with_Cons read_fields_field)
qed

subsection \<open>Paths\<close>

text \<open>\<^verbatim>\<open>fs::path::is_absolute\<close> and \<^verbatim>\<open>operator/\<close> as they are on POSIX systems.\<close>

definition is_absolute :: "path \<Rightarrow> bool" where
  "is_absolute p = (p \<noteq> [] \<and> hd p = CHR ''/'')"

definition has_filename :: "path \<Rightarrow> bool" where
  "has_filename p = (p \<noteq> [] \<and> last p \<noteq> CHR ''/'')"

definition path_append :: "path \<Rightarrow> path \<Rightarrow> path" where
  "path_append p q =
     (if is_absolute q then q else if has_filename p then p @ ''/'' @ q else p @ q)"

lemma path_append_absolute: "is_absolute p \<Longrightarrow> is_absolute (path_append p q)"
  by (auto simp: path_append_def is_absolute_def)

end
