(* ===== verification/Replies.thy ===== *)
theory Replies
  imports Ftpd_Prelude
begin

text \<open>
  \<^verbatim>\<open>session/code.h\<close> and \<^verbatim>\<open>session/code.cc\<close>: the reply codes, the table of standard
  texts and the five functions of \<^verbatim>\<open>Response\<close> that build a reply. A
  \<^verbatim>\<open>SharedConstBuffer\<close> is an immutable copy of its string and is modelled by it.
\<close>

subsection \<open>Codes\<close>

text \<open>\<^verbatim>\<open>welcome\<close> is an Isabelle command and is written \<open>welcome_ready\<close>.\<close>

datatype ret_code =
    data_conn | ok | stat_ok | size_or_mdtm_ok | syst_ok | welcome_ready | transfer_complete
  | pasv_ok | logged_on | cwd_rmdir_dele_rename_ok | pwd_or_mkdir_ok | password_required
  | bad_send_net | syntax_error | bad_opts | invalid_seq | not_allowed | noperm_filefatal
  | upload_fail

fun code_num :: "ret_code \<Rightarrow> nat" where
  "code_num data_conn = 150"
| "code_num ok = 200"
| "code_num stat_ok = 211"
| "code_num size_or_mdtm_ok = 213"
| "code_num syst_ok = 215"
| "code_num welcome_ready = 220"
| "code_num transfer_complete = 226"
| "code_num pasv_ok = 227"
| "code_num logged_on = 230"
| "code_num cwd_rmdir_dele_rename_ok = 250"
| "code_num pwd_or_mkdir_ok = 257"
| "code_num password_required = 331"
| "code_num bad_send_net = 426"
| "code_num syntax_error = 500"
| "code_num bad_opts = 501"
| "code_num invalid_seq = 503"
| "code_num not_allowed = 530"
| "code_num noperm_filefatal = 550"
| "code_num upload_fail = 553"

text \<open>The table is an \<^verbatim>\<open>unordered_map\<close>; nine codes of the enumeration are not in it.\<close>

fun code_map :: "ret_code \<Rightarrow> string option" where
  "code_map data_conn = Some ''Data connection accepted; transfer starting.''"
| "code_map syst_ok = Some ''UNIX emulated by ftpd''"
| "code_map welcome_ready = Some ''Welcome to ftpd.''"
| "code_map logged_on = Some ''Logged on.''"
| "code_map transfer_complete = Some ''Transfer complete.''"
| "code_map pasv_ok = Some ''Entering Passive Mode.''"
| "code_map password_required = Some ''Password required.''"
| "code_map syntax_error = Some ''Syntax error, command unrecognized.''"
| "code_map invalid_seq = Some ''Invalid sequence of commands.''"
| "code_map not_allowed = Some ''Login or password incorrect.''"
| "code_map _ = None"

subsection \<open>Replies\<close>

definition get_code_string_info :: "ret_code \<Rightarrow> string \<Rightarrow> string" where
  "get_code_string_info code info = show_nat (code_num code) @ '' '' @ info @ crlf"

definition get_code_string :: "ret_code \<Rightarrow> string" where
  "get_code_string code =
     (case code_map code of
        None \<Rightarrow> show_nat (code_num code) @ crlf
      | Some text \<Rightarrow> show_nat (code_num code) @ '' '' @ text @ crlf)"

definition get_pasv_response :: "string \<Rightarrow> u16 \<Rightarrow> string" where
  "get_pasv_response ip port =
     show_nat (code_num pasv_ok) @ '' '' @ the (code_map pasv_ok) @ '' ('' @
     map (\<lambda>c. if c = CHR ''.'' then CHR '','' else c) ip @ '','' @
     show_nat (unat (port div 256)) @ '','' @ show_nat (unat (port mod 256)) @ '')'' @ crlf"

definition get_pwd_response :: "path \<Rightarrow> string" where
  "get_pwd_response p =
     get_code_string_info pwd_or_mkdir_ok (quote @ p @ quote @ '' is the current directory.'')"

definition get_cwd_response :: "path option \<Rightarrow> string" where
  "get_cwd_response p =
     (case p of
        Some p \<Rightarrow> get_code_string_info cwd_rmdir_dele_rename_ok
          (''CWD successful. '' @ quote @ p @ quote @ '' is the current directory.'')
      | None \<Rightarrow> get_code_string_info noperm_filefatal ''Directory not found.'')"

subsection \<open>Facts\<close>

lemma code_num_inj: "code_num c = code_num d \<Longrightarrow> c = d"
  by (cases c; cases d; simp)

lemma code_num_bounds: "100 \<le> code_num c \<and> code_num c < 600"
  by (cases c) simp_all

lemma get_code_string_Some:
  "code_map c = Some t \<Longrightarrow> get_code_string c = get_code_string_info c t"
  by (simp add: get_code_string_def get_code_string_info_def)

lemma length_show_nat_3:
  assumes "100 \<le> n" and "n < 1000" shows "length (show_nat n) = 3"
proof -
  have "\<not> n < 10" "\<not> n div 10 < 10" "n div 10 div 10 < 10" using assms by auto
  then show ?thesis
    using show_nat.simps [of n] show_nat.simps [of "n div 10"] show_nat.simps [of "n div 10 div 10"]
    by simp
qed

text \<open>
  A reply line: three digits, then a blank or the end, then text without a line end,
  then one line end. It is what a client reads up to the first \<^verbatim>\<open>\r\n\<close>.
\<close>

definition reply_line :: "string \<Rightarrow> bool" where
  "reply_line r =
     (\<exists>t. r = t @ crlf \<and> 3 \<le> length t \<and> (\<forall>c \<in> set (take 3 t). isdigit c) \<and>
          (length t = 3 \<or> t ! 3 = CHR '' '') \<and> (\<forall>c \<in> set t. c \<notin> set crlf))"

lemma crlf_not_digit: "isdigit c \<Longrightarrow> c \<notin> set crlf"
  by (auto simp: crlf_def)

lemma reply_lineI:
  assumes "length d = 3" and "\<forall>c \<in> set d. isdigit c"
    and "t = [] \<or> hd t = CHR '' ''" and "\<forall>c \<in> set t. c \<notin> set crlf"
  shows "reply_line (d @ t @ crlf)"
proof -
  have "take 3 (d @ t) = d" by (simp add: assms(1))
  moreover have "length (d @ t) = 3 \<or> (d @ t) ! 3 = CHR '' ''"
    using assms(1,3) by (cases t) (auto simp: nth_append)
  moreover have "\<forall>c \<in> set (d @ t). c \<notin> set crlf"
    using assms(2,4) crlf_not_digit by auto
  ultimately show ?thesis
    unfolding reply_line_def using assms(1,2) by (intro exI [of _ "d @ t"]) simp
qed

lemma code_digits:
  "length (show_nat (code_num code)) = 3" "\<forall>c \<in> set (show_nat (code_num code)). isdigit c"
  using code_num_bounds [of code] show_nat_digits by (auto intro: length_show_nat_3)

lemma reply_line_info:
  assumes "\<forall>c \<in> set info. c \<notin> set crlf"
  shows "reply_line (get_code_string_info code info)"
proof -
  have "reply_line (show_nat (code_num code) @ ('' '' @ info) @ crlf)"
    using assms by (intro reply_lineI code_digits) (simp_all add: crlf_def)
  then show ?thesis by (simp add: get_code_string_info_def)
qed

lemma reply_line_bare: "code_map code = None \<Longrightarrow> reply_line (get_code_string code)"
  using reply_lineI [OF code_digits, of "[]" code] by (simp add: get_code_string_def)

lemma code_map_no_crlf: "code_map c = Some t \<Longrightarrow> (\<forall>x \<in> set t. x \<notin> set crlf)"
  by (cases c) (auto simp: crlf_def)

lemma reply_line_code: "reply_line (get_code_string code)"
proof (cases "code_map code")
  case None
  then show ?thesis by (rule reply_line_bare)
next
  case (Some t)
  then show ?thesis
    by (simp add: get_code_string_Some reply_line_info code_map_no_crlf)
qed

end
