(* ===== verification/Requests.thy ===== *)
theory Requests
  imports Ftpd_Prelude
begin

text \<open>
  \<^verbatim>\<open>session/ftp_request.h\<close> and \<^verbatim>\<open>build_request\<close> of \<^verbatim>\<open>session/session.cc\<close>: a control
  line becomes a command word in upper case and a body.
\<close>

record ftp_request =
  command :: string
  body :: string

definition reset_request :: "ftp_request \<Rightarrow> ftp_request" where
  "reset_request r = r\<lparr>command := [], body := []\<rparr>"

text \<open>The loop from index 2 that appends a blank and the next word to the stream.\<close>

fun append_words :: "string \<Rightarrow> string list \<Rightarrow> string" where
  "append_words ss [] = ss"
| "append_words ss (w # ws) = append_words (ss @ '' '' @ w) ws"

definition build_request :: "string list \<Rightarrow> ftp_request \<Rightarrow> bool \<times> ftp_request" where
  "build_request input request =
     (case input of
        [] \<Rightarrow> (False, request)
      | w # ws \<Rightarrow>
          let r = request\<lparr>command := map toupper w\<rparr>
          in (True, case ws of [] \<Rightarrow> r | v # vs \<Rightarrow> r\<lparr>body := append_words v vs\<rparr>))"

text \<open>What \<^verbatim>\<open>handle_read\<close> makes of one line: the words, then the request.\<close>

definition parse_line :: "string \<Rightarrow> ftp_request \<Rightarrow> bool \<times> ftp_request" where
  "parse_line line request = build_request (read_words line) (reset_request request)"

subsection \<open>Facts\<close>

lemma append_words_prefix: "append_words (p @ v) vs = p @ append_words v vs"
  by (induction vs arbitrary: v) simp_all

lemma append_words_join: "append_words v vs = join_with '' '' (v # vs)"
proof (induction vs arbitrary: v)
  case (Cons w ws)
  have "append_words v (w # ws) = v @ '' '' @ append_words w ws"
    using append_words_prefix [of "v @ '' ''" w ws] by simp
  also have "append_words w ws = join_with '' '' (w # ws)" by (rule Cons)
  finally show ?case by simp
qed simp

lemma build_request_eq:
  "build_request (w # ws) r = (True, r\<lparr>command := map toupper w,
     body := (if ws = [] then body r else join_with '' '' ws)\<rparr>)"
  by (cases ws) (simp_all add: build_request_def append_words_join Let_def)

lemma parse_line_False: "fst (parse_line l r) \<longleftrightarrow> read_words l \<noteq> []"
  by (cases "read_words l") (simp_all add: parse_line_def build_request_eq, simp add: build_request_def)

text \<open>The request does not depend on the one before: \<^verbatim>\<open>reset\<close> clears both fields.\<close>

lemma parse_line_fresh: "parse_line l r = parse_line l \<lparr>command = [], body = []\<rparr>"
  by (cases r) (simp add: parse_line_def reset_request_def)

end
