(* ===== verification/Ftpd_Config.thy ===== *)
theory Ftpd_Config
  imports Ftpd_Prelude
begin

text \<open>
  \<^verbatim>\<open>config/config.h\<close> and \<^verbatim>\<open>config/config.cc\<close>: the process-wide settings, the reader of
  the configuration file and the counter of connected clients. The JSON library is a
  parameter: a parsed document answers which keys it has and converts the value of a key,
  or throws.
\<close>

record config =
  ftpd_banner :: string
  data_connection_timeout :: int
  max_idle_timeout :: int
  data_transfer_port :: u16
  use_local_time :: bool
  anonymous_enable :: bool
  write_enable :: bool
  port :: u16
  download_speed_limit_in_kb_per_s :: u16
  upload_speed_limit_in_kb_per_s :: u16

text \<open>
  The object \<^verbatim>\<open>global_config\<close> is a function-local static, hence zeroed before its
  (empty) constructor runs; the third argument of \<^verbatim>\<open>field_ro_guard\<close> is not used by
  the macro. \<open>declared_defaults\<close> is what those arguments say.
\<close>

definition global_config :: config where
  "global_config = \<lparr>ftpd_banner = [], data_connection_timeout = 0, max_idle_timeout = 0,
     data_transfer_port = 0, use_local_time = False, anonymous_enable = False,
     write_enable = False, port = 0, download_speed_limit_in_kb_per_s = 0,
     upload_speed_limit_in_kb_per_s = 0\<rparr>"

definition declared_defaults :: config where
  "declared_defaults = \<lparr>ftpd_banner = [], data_connection_timeout = 10, max_idle_timeout = 20,
     data_transfer_port = 10087, use_local_time = True, anonymous_enable = False,
     write_enable = False, port = 10086, download_speed_limit_in_kb_per_s = 0,
     upload_speed_limit_in_kb_per_s = 0\<rparr>"

record json =
  json_contains :: "string \<Rightarrow> bool"
  json_string :: "string \<Rightarrow> crash + string"
  json_int :: "string \<Rightarrow> crash + int"
  json_u16 :: "string \<Rightarrow> crash + u16"
  json_bool :: "string \<Rightarrow> crash + bool"

datatype conf_file = NotOpen | ParseError | Parsed json

definition set_field ::
  "json \<Rightarrow> string \<Rightarrow> (string \<Rightarrow> crash + 'v) \<Rightarrow> (('v \<Rightarrow> 'v) \<Rightarrow> config \<Rightarrow> config) \<Rightarrow> config \<Rightarrow> crash + config"
where
  "set_field j name get upd c =
     (if json_contains j name then sbind (get name) (\<lambda>v. Inr (upd (\<lambda>_. v) c)) else Inr c)"

definition init :: "conf_file \<Rightarrow> config \<Rightarrow> crash + config" where
  "init f c =
     (case f of
        NotOpen \<Rightarrow> Inr c
      | ParseError \<Rightarrow> Inl JsonException
      | Parsed j \<Rightarrow>
          sbind (set_field j ''ftpd_banner'' (json_string j) ftpd_banner_update c) (\<lambda>c.
          sbind (set_field j ''max_idle_timeout'' (json_int j) max_idle_timeout_update c) (\<lambda>c.
          sbind (set_field j ''data_connection_timeout'' (json_int j) data_connection_timeout_update c) (\<lambda>c.
          sbind (set_field j ''data_transfer_port'' (json_u16 j) data_transfer_port_update c) (\<lambda>c.
          sbind (set_field j ''use_local_time'' (json_bool j) use_local_time_update c) (\<lambda>c.
          sbind (set_field j ''anonymous_enable'' (json_bool j) anonymous_enable_update c) (\<lambda>c.
          sbind (set_field j ''write_enable'' (json_bool j) write_enable_update c) (\<lambda>c.
          sbind (set_field j ''port'' (json_u16 j) port_update c) (\<lambda>c.
          set_field j ''download_speed_limit_in_kb_per_s'' (json_u16 j)
            download_speed_limit_in_kb_per_s_update c)))))))))"

text \<open>The counter is a 32-bit \<^verbatim>\<open>atomic_int\<close>; its arithmetic wraps.\<close>

definition inc_client_num :: "u32 \<Rightarrow> u32" where
  "inc_client_num n = n + 1"

definition dec_client_num :: "u32 \<Rightarrow> u32" where
  "dec_client_num n = n - 1"

definition client_num :: "u32 \<Rightarrow> int" where
  "client_num n = sint n"

subsection \<open>Facts\<close>

text \<open>A field is read from the document if the key is there, and keeps its value otherwise.\<close>

definition reads :: "json \<Rightarrow> string \<Rightarrow> (string \<Rightarrow> crash + 'v) \<Rightarrow> 'v \<Rightarrow> 'v \<Rightarrow> bool" where
  "reads j name get old v \<longleftrightarrow> (if json_contains j name then get name = Inr v else v = old)"

lemma set_field_reads:
  "set_field j name get upd c = Inr d \<Longrightarrow> upd (\<lambda>_. old) c = c \<Longrightarrow>
   \<exists>v. d = upd (\<lambda>_. v) c \<and> reads j name get old v"
  by (auto simp: set_field_def reads_def sbind_Inr_iff split: if_splits)

lemma init_reads:
  assumes "init (Parsed j) c = Inr d"
  shows "reads j ''ftpd_banner'' (json_string j) (ftpd_banner c) (ftpd_banner d) \<and>
    reads j ''max_idle_timeout'' (json_int j) (max_idle_timeout c) (max_idle_timeout d) \<and>
    reads j ''data_connection_timeout'' (json_int j) (data_connection_timeout c) (data_connection_timeout d) \<and>
    reads j ''data_transfer_port'' (json_u16 j) (data_transfer_port c) (data_transfer_port d) \<and>
    reads j ''use_local_time'' (json_bool j) (use_local_time c) (use_local_time d) \<and>
    reads j ''anonymous_enable'' (json_bool j) (anonymous_enable c) (anonymous_enable d) \<and>
    reads j ''write_enable'' (json_bool j) (write_enable c) (write_enable d) \<and>
    reads j ''port'' (json_u16 j) (port c) (port d) \<and>
    reads j ''download_speed_limit_in_kb_per_s'' (json_u16 j) (download_speed_limit_in_kb_per_s c)
      (download_speed_limit_in_kb_per_s d) \<and>
    upload_speed_limit_in_kb_per_s d = upload_speed_limit_in_kb_per_s c"
proof -
  from assms obtain c1 c2 c3 c4 c5 c6 c7 c8 where
    s: "set_field j ''ftpd_banner'' (json_string j) ftpd_banner_update c = Inr c1"
    "set_field j ''max_idle_timeout'' (json_int j) max_idle_timeout_update c1 = Inr c2"
    "set_field j ''data_connection_timeout'' (json_int j) data_connection_timeout_update c2 = Inr c3"
    "set_field j ''data_transfer_port'' (json_u16 j) data_transfer_port_update c3 = Inr c4"
    "set_field j ''use_local_time'' (json_bool j) use_local_time_update c4 = Inr c5"
    "set_field j ''anonymous_enable'' (json_bool j) anonymous_enable_update c5 = Inr c6"
    "set_field j ''write_enable'' (json_bool j) write_enable_update c6 = Inr c7"
    "set_field j ''port'' (json_u16 j) port_update c7 = Inr c8"
    "set_field j ''download_speed_limit_in_kb_per_s'' (json_u16 j) download_speed_limit_in_kb_per_s_update c8 = Inr d"
    by (auto simp: init_def sbind_Inr_iff)
  obtain v1 where v1: "c1 = c\<lparr>ftpd_banner := v1\<rparr>" "reads j ''ftpd_banner'' (json_string j) (ftpd_banner c) v1"
    using set_field_reads [OF s(1), of "ftpd_banner c"] by auto
  obtain v2 where v2: "c2 = c1\<lparr>max_idle_timeout := v2\<rparr>" "reads j ''max_idle_timeout'' (json_int j) (max_idle_timeout c1) v2"
    using set_field_reads [OF s(2), of "max_idle_timeout c1"] by auto
  obtain v3 where v3: "c3 = c2\<lparr>data_connection_timeout := v3\<rparr>"
    "reads j ''data_connection_timeout'' (json_int j) (data_connection_timeout c2) v3"
    using set_field_reads [OF s(3), of "data_connection_timeout c2"] by auto
  obtain v4 where v4: "c4 = c3\<lparr>data_transfer_port := v4\<rparr>"
    "reads j ''data_transfer_port'' (json_u16 j) (data_transfer_port c3) v4"
    using set_field_reads [OF s(4), of "data_transfer_port c3"] by auto
  obtain v5 where v5: "c5 = c4\<lparr>use_local_time := v5\<rparr>" "reads j ''use_local_time'' (json_bool j) (use_local_time c4) v5"
    using set_field_reads [OF s(5), of "use_local_time c4"] by auto
  obtain v6 where v6: "c6 = c5\<lparr>anonymous_enable := v6\<rparr>" "reads j ''anonymous_enable'' (json_bool j) (anonymous_enable c5) v6"
    using set_field_reads [OF s(6), of "anonymous_enable c5"] by auto
  obtain v7 where v7: "c7 = c6\<lparr>write_enable := v7\<rparr>" "reads j ''write_enable'' (json_bool j) (write_enable c6) v7"
    using set_field_reads [OF s(7), of "write_enable c6"] by auto
  obtain v8 where v8: "c8 = c7\<lparr>port := v8\<rparr>" "reads j ''port'' (json_u16 j) (port c7) v8"
    using set_field_reads [OF s(8), of "port c7"] by auto
  obtain v9 where v9: "d = c8\<lparr>download_speed_limit_in_kb_per_s := v9\<rparr>"
    "reads j ''download_speed_limit_in_kb_per_s'' (json_u16 j) (download_speed_limit_in_kb_per_s c8) v9"
    using set_field_reads [OF s(9), of "download_speed_limit_in_kb_per_s c8"] by auto
  from v1 v2 v3 v4 v5 v6 v7 v8 v9 show ?thesis by simp
qed

end
