(* ===== verification/Registry.thy ===== *)
theory Registry
  imports Ftpd_Prelude
begin

text \<open>
  \<^verbatim>\<open>utils/regist_factory.h\<close> and \<^verbatim>\<open>utils/regist_operation.cc\<close>: the registry that maps a
  command word to the factory of an operator, and the 19 registrations made at start-up.
  A factory is modelled by the class it constructs; running it is the constructor of the
  operator (see \<^verbatim>\<open>Operators\<close>).
\<close>

datatype op_class =
    AckOp | AuthOp | CreateDirOp | SendFileOp | RecvFileOp | StatOp | SystOp
  | PrintWorkingDirOp | ChangeWorkingDirOp | PropertyOp | PassiveModeOp | ListOp | SizeOp
  | CdToParentOp

type_synonym factory_map = "string \<Rightarrow> op_class option"

definition add :: "string \<Rightarrow> op_class \<Rightarrow> factory_map \<Rightarrow> bool \<times> factory_map" where
  "add name fac m = (if m name \<noteq> None then (False, m) else (True, m(name := Some fac)))"

definition create :: "string \<Rightarrow> factory_map \<Rightarrow> op_class option" where
  "create name m = (case m name of None \<Rightarrow> None | Some fac \<Rightarrow> Some fac)"

text \<open>The registrations, in the order of the source.\<close>

definition registrations :: "(string \<times> op_class) list" where
  "registrations =
    [(''NOOP'', AckOp), (''AUTH'', AuthOp), (''MKD'', CreateDirOp), (''XMKD'', CreateDirOp),
     (''RETR'', SendFileOp), (''STOR'', RecvFileOp), (''STAT'', StatOp), (''SYST'', SystOp),
     (''PWD'', PrintWorkingDirOp), (''XPWD'', PrintWorkingDirOp),
     (''CWD'', ChangeWorkingDirOp), (''XCWD'', ChangeWorkingDirOp),
     (''OPTS'', PropertyOp), (''TYPE'', PropertyOp), (''PASV'', PassiveModeOp),
     (''LIST'', ListOp), (''SIZE'', SizeOp), (''CDUP'', CdToParentOp), (''XCUP'', CdToParentOp)]"

fun regist_all :: "(string \<times> op_class) list \<Rightarrow> factory_map \<Rightarrow> factory_map" where
  "regist_all [] m = m"
| "regist_all ((name, fac) # rs) m = regist_all rs (snd (add name fac m))"

definition regist_all_operation :: factory_map where
  "regist_all_operation = regist_all registrations (\<lambda>_. None)"

subsection \<open>The contract of a registry\<close>

text \<open>
  What the callers rely on: a lookup after a registration finds what was there before, or
  else the new entry, and a registration says whether it was made.
\<close>

locale registry =
  fixes reg_add :: "'k \<Rightarrow> 'v \<Rightarrow> 'm \<Rightarrow> bool \<times> 'm"
    and reg_find :: "'k \<Rightarrow> 'm \<Rightarrow> 'v option"
  assumes find_add: "reg_find k (snd (reg_add k' v m)) =
            (if k = k' \<and> reg_find k m = None then Some v else reg_find k m)"
    and add_ok: "fst (reg_add k v m) \<longleftrightarrow> reg_find k m = None"
begin

lemma first_wins: "reg_find k m = Some v \<Longrightarrow> reg_find k (snd (reg_add k' v' m)) = Some v"
  by (simp add: find_add)

lemma added_found: "fst (reg_add k v m) \<Longrightarrow> reg_find k (snd (reg_add k v m)) = Some v"
  by (simp add: find_add add_ok)

lemma second_refused: "\<not> fst (reg_add k v' (snd (reg_add k v m)))"
  by (simp add: find_add add_ok)

lemma fold_find:
  "reg_find k (fold (\<lambda>(k, v) m. snd (reg_add k v m)) rs m) =
     (case reg_find k m of Some v \<Rightarrow> Some v | None \<Rightarrow> map_of rs k)"
  by (induction rs arbitrary: m) (auto simp: find_add split: option.splits)

end

interpretation plugins: registry add create
  by unfold_locales (auto simp: add_def create_def split: option.splits)

lemma create_eq [simp]: "create name m = m name"
  by (simp add: create_def split: option.splits)

lemma regist_all_fold: "regist_all rs m = fold (\<lambda>(k, v) m. snd (add k v m)) rs m"
  by (induction rs arbitrary: m) auto

lemma regist_all_find:
  "regist_all rs m k = (case m k of Some v \<Rightarrow> Some v | None \<Rightarrow> map_of rs k)"
  using plugins.fold_find [of k rs m] by (simp add: regist_all_fold)

lemma registered: "regist_all_operation = map_of registrations"
  by (rule ext) (simp add: regist_all_operation_def regist_all_find)

lemma registrations_distinct: "distinct (map fst registrations)"
  by (simp add: registrations_def)

end
