(* ===== verification/Session_State.thy ===== *)
theory Session_State
  imports Replies Requests Ftpd_Config Registry
begin

text \<open>
  \<^verbatim>\<open>session/context.h\<close>, \<^verbatim>\<open>session/context.cc\<close> and the state of \<^verbatim>\<open>session/session.h\<close>.

  One record holds a \<^verbatim>\<open>Session\<close>, its \<^verbatim>\<open>SessionContext\<close>, the operators alive on the
  heap and the asynchronous operations that were started and have not completed. All
  handlers of a session run on the one thread of its worker, so a run of the session is a
  sequence of handler invocations. A callback of the code is a constructor: a \<open>handler\<close>
  for a callback given to asio, a \<open>token\<close> for the function queued with a message; its
  arguments are what the lambda captures.
\<close>

subsection \<open>The outside: system calls, asio, clock\<close>

datatype file_type =
    ft_none | ft_not_found | ft_regular | ft_directory | ft_symlink | ft_block
  | ft_character | ft_fifo | ft_socket | ft_unknown

record dirent =
  de_status :: "crash + (file_type \<times> u32)"
  de_links :: "crash + nat"
  de_size :: "crash + nat"
  de_mtime :: int
  de_name :: string

record tm =
  tm_mon :: int
  tm_mday :: int
  tm_hour :: int
  tm_min :: int

text \<open>
  The file system is a parameter: its state is a value of the type variable \<open>'w\<close>, which
  the calls read and change, and which may change in any way between two handlers.
\<close>

record 'w os =
  os_exists :: "'w \<Rightarrow> path \<Rightarrow> crash + bool"
  os_is_directory :: "'w \<Rightarrow> path \<Rightarrow> crash + bool"
  os_is_regular_file :: "'w \<Rightarrow> path \<Rightarrow> crash + bool"
  os_canonical :: "'w \<Rightarrow> path \<Rightarrow> crash + path"
  os_file_size :: "'w \<Rightarrow> path \<Rightarrow> crash + u64"
  os_create_directory :: "'w \<Rightarrow> path \<Rightarrow> crash + 'w"
  os_open_read :: "'w \<Rightarrow> path \<Rightarrow> int"
  os_open_write :: "'w \<Rightarrow> path \<Rightarrow> int \<times> 'w"
  os_pipe :: "'w \<Rightarrow> (int \<times> int) option"
  os_directory_iterator :: "'w \<Rightarrow> path \<Rightarrow> crash + dirent list"
  os_localtime :: "int \<Rightarrow> tm"
  os_gmtime :: "int \<Rightarrow> tm"

text \<open>What a completed asynchronous operation reports, and the results of the transfer calls.\<close>

datatype ec = Success | Eof | Aborted | OtherError

datatype sendfile_result = SfBytes u64 | SfAgain | SfError

datatype splice_in = SpData string | SpEof | SpIntr | SpAgain | SpError

text \<open>
  The environment of one handler invocation: the configuration, the system calls, the
  time in nanoseconds, the number of clients, the error code and data of the completion,
  and the answers of the socket calls made on the way. \<open>splices\<close> are the outcomes of
  the \<^verbatim>\<open>splice\<close> calls of one readiness event, each read from the socket with the
  results of the writes to the file that follow it.
\<close>

record 'w env =
  cfg :: config
  sys :: "'w os"
  now :: int
  clients :: int
  ec_of :: ec
  chunk :: string
  read_n :: nat
  peer_ok :: bool
  control_addr :: "crash + string"
  acc_open_ok :: bool
  acc_option_ok :: bool
  acc_bind_ok :: bool
  acc_listen_ok :: bool
  acc_port :: u16
  nonblock_ok :: bool
  nodelay_ok :: bool
  sendfile_res :: sendfile_result
  available :: "crash + nat"
  splices :: "(splice_in \<times> int list) list"

subsection \<open>State\<close>

datatype transport_type = ascii | binary

type_synonym opid = nat

datatype token = NoToken | SendToken opid | RecvToken opid | ListToken opid string

type_synonym message = "string \<times> token"

datatype handler =
    OnBanner string | OnRead | OnIdle | OnKeepAlive | OnWrite
  | OnAccept opid | OnSendReady opid | OnLimiter opid | OnRecvReady opid
  | OnListWritten opid string

datatype acceptor = AccClosed | AccOpened | AccListening u16

datatype data_sock = SockOpen | SockClosed

datatype expiry = Never | At int

record send_file =
  sf_fd :: int
  sf_name :: string
  sf_size :: u64
  sf_offset :: u64
  sf_token :: bool

record recv_file =
  rf_fd :: int
  rf_name :: string
  rf_pipe :: "int \<times> int"
  rf_token :: bool
  rf_in_pipe :: string
  rf_written :: string

datatype operator = Plain op_class | Sending send_file | Receiving recv_file

text \<open>
  The last six fields are not in the code: the state of the file system, every reply
  handed over for writing, every reply written and every reply given up after a failed
  write, the listings written to data sockets, and the descriptors opened by operators and
  not closed.
\<close>

record 'w sess =
  stoped :: bool
  timer_expiry :: expiry
  keep_cancelled :: bool
  buf :: string
  remote_peer :: string
  current_path :: path
  verified :: bool
  user :: string
  password :: string
  enable_write :: bool
  request :: ftp_request
  is_anonymous :: bool
  transport :: transport_type
  message_queue :: "message list"
  active_op_num :: u32
  data_socket :: "data_sock option"
  control_open :: bool
  acceptor :: acceptor
  operators :: "(opid \<times> operator) list"
  next_op :: opid
  pending :: "handler list"
  destroyed :: bool
  world :: 'w
  submitted :: "string list"
  sent :: "string list"
  dropped :: "string list"
  listings :: "string list"
  open_fds :: "int list"

text \<open>
  The constructors. \<^verbatim>\<open>active_op_num_\<close> is not initialised by the code: its first value is
  the parameter \<open>n0\<close>. The timer starts at the clock's epoch.
\<close>

definition new_context :: "path \<Rightarrow> u32 \<Rightarrow> string \<Rightarrow> 'w \<Rightarrow> 'w sess" where
  "new_context home n0 peer w = \<lparr>
     stoped = False, timer_expiry = At 0, keep_cancelled = False, buf = [], remote_peer = peer,
     current_path = home, verified = False, user = [], password = [], enable_write = False,
     request = \<lparr>command = [], body = []\<rparr>, is_anonymous = False, transport = binary,
     message_queue = [], active_op_num = n0, data_socket = None, control_open = True,
     acceptor = AccClosed, operators = [], next_op = 0, pending = [], destroyed = False,
     world = w, submitted = [], sent = [], dropped = [], listings = [], open_fds = []\<rparr>"

definition new_session :: "crash + string \<Rightarrow> path \<Rightarrow> u32 \<Rightarrow> 'w \<Rightarrow> crash + 'w sess" where
  "new_session remote_endpoint home n0 w =
     sbind remote_endpoint (\<lambda>peer. Inr (new_context home n0 peer w))"

subsection \<open>Timer, data socket, paths\<close>

text \<open>
  Setting the expiry cancels the waits on the timer. Only \<open>OnKeepAlive\<close> depends on it:
  the flag says that a cancel was requested since that wait was started.
\<close>

definition update_idle_timer :: "'w env \<Rightarrow> int \<Rightarrow> 'w sess \<Rightarrow> 'w sess" where
  "update_idle_timer e seconds s =
     s\<lparr>timer_expiry := At (now e + seconds * 1000000000), keep_cancelled := True\<rparr>"

definition expires_never :: "'w sess \<Rightarrow> 'w sess" where
  "expires_never s = s\<lparr>timer_expiry := Never, keep_cancelled := True\<rparr>"

definition cancel_idle_timer :: "'w sess \<Rightarrow> 'w sess" where
  "cancel_idle_timer s = s\<lparr>keep_cancelled := True\<rparr>"

definition add_pending :: "handler \<Rightarrow> 'w sess \<Rightarrow> 'w sess" where
  "add_pending h s = s\<lparr>pending := pending s @ [h]\<rparr>"

definition clear_data_socket :: "'w sess \<Rightarrow> 'w sess" where
  "clear_data_socket s = s\<lparr>data_socket := None\<rparr>"

definition set_data_socket :: "'w sess \<Rightarrow> 'w sess" where
  "set_data_socket s = s\<lparr>data_socket := Some SockOpen\<rparr>"

definition get_target_path :: "'w sess \<Rightarrow> path \<Rightarrow> path" where
  "get_target_path s p = (if \<not> is_absolute p then path_append (current_path s) p else p)"

subsection \<open>The message queue\<close>

definition exists_pending_operator :: "'w sess \<Rightarrow> bool" where
  "exists_pending_operator s = (if active_op_num s = 0 \<and> message_queue s = [] then False else True)"

text \<open>
  \<^verbatim>\<open>do_write_message\<close>: with nothing left to write and no operator alive the idle timer
  starts again; the log line before it asks for the peer's address, which throws once the
  peer is gone.
\<close>

definition do_write_message :: "'w env \<Rightarrow> 'w sess \<Rightarrow> crash + 'w sess" where
  "do_write_message e s =
     (if message_queue s = [] then
        (if \<not> exists_pending_operator s then
           (if \<not> stoped s then
              (if peer_ok e then Inr (update_idle_timer e (max_idle_timeout (cfg e)) s)
               else Inl SystemError)
            else Inr (cancel_idle_timer s))
         else Inr s)
      else Inr (add_pending OnWrite s))"

definition write_message :: "'w env \<Rightarrow> string \<Rightarrow> token \<Rightarrow> 'w sess \<Rightarrow> crash + 'w sess" where
  "write_message e buffer token s =
     (let is_writing = (message_queue s \<noteq> []);
          s1 = s\<lparr>message_queue := message_queue s @ [(buffer, token)],
                 submitted := submitted s @ [buffer]\<rparr>
      in if \<not> is_writing then do_write_message e s1 else Inr s1)"

text \<open>A message is always accepted: \<open>enqueue\<close> is the state after \<open>write_message\<close>.\<close>

definition enqueue :: "string \<Rightarrow> token \<Rightarrow> 'w sess \<Rightarrow> 'w sess" where
  "enqueue buffer token s =
     s\<lparr>message_queue := message_queue s @ [(buffer, token)],
       submitted := submitted s @ [buffer],
       pending := (if message_queue s = [] then pending s @ [OnWrite] else pending s)\<rparr>"

lemma write_message_eq [stepsimps]: "write_message e b t s = Inr (enqueue b t s)"
  by (simp add: write_message_def enqueue_def do_write_message_def add_pending_def Let_def)

lemma enqueue_frame [simp]:
  "stoped (enqueue b t s) = stoped s" "timer_expiry (enqueue b t s) = timer_expiry s"
  "keep_cancelled (enqueue b t s) = keep_cancelled s" "buf (enqueue b t s) = buf s"
  "current_path (enqueue b t s) = current_path s" "verified (enqueue b t s) = verified s"
  "user (enqueue b t s) = user s" "password (enqueue b t s) = password s"
  "request (enqueue b t s) = request s" "is_anonymous (enqueue b t s) = is_anonymous s"
  "transport (enqueue b t s) = transport s" "active_op_num (enqueue b t s) = active_op_num s"
  "data_socket (enqueue b t s) = data_socket s" "control_open (enqueue b t s) = control_open s"
  "acceptor (enqueue b t s) = acceptor s" "operators (enqueue b t s) = operators s"
  "next_op (enqueue b t s) = next_op s" "destroyed (enqueue b t s) = destroyed s"
  "world (enqueue b t s) = world s" "sent (enqueue b t s) = sent s"
  "dropped (enqueue b t s) = dropped s"
  "listings (enqueue b t s) = listings s" "open_fds (enqueue b t s) = open_fds s"
  "enable_write (enqueue b t s) = enable_write s" "remote_peer (enqueue b t s) = remote_peer s"
  by (simp_all add: enqueue_def)

lemma enqueue_queue [simp]:
  "message_queue (enqueue b t s) = message_queue s @ [(b, t)]"
  "submitted (enqueue b t s) = submitted s @ [b]"
  by (simp_all add: enqueue_def)

end
