(* ===== verification/Operators.thy ===== *)
theory Operators
  imports Session_State
begin

text \<open>
  \<^verbatim>\<open>op/basic_op.h\<close>, \<^verbatim>\<open>op/basic_op.cc\<close> and the constructors and destructors of the
  operators. An operator is owned by \<^verbatim>\<open>shared_ptr\<close>s in the local variable of
  \<^verbatim>\<open>dispatch_task\<close>, in pending handlers and in queued tokens; it is destroyed when the
  last of them goes. \<open>release\<close> is that: it runs the destructor of every operator that no
  pending handler and no queued token refers to, and stands where the code drops a
  reference.
\<close>

subsection \<open>References\<close>

fun handler_ref :: "handler \<Rightarrow> opid option" where
  "handler_ref (OnAccept i) = Some i"
| "handler_ref (OnSendReady i) = Some i"
| "handler_ref (OnLimiter i) = Some i"
| "handler_ref (OnRecvReady i) = Some i"
| "handler_ref (OnListWritten i r) = Some i"
| "handler_ref _ = None"

fun token_ref :: "token \<Rightarrow> opid option" where
  "token_ref NoToken = None"
| "token_ref (SendToken i) = Some i"
| "token_ref (RecvToken i) = Some i"
| "token_ref (ListToken i r) = Some i"

definition referenced :: "opid \<Rightarrow> 'w sess \<Rightarrow> bool" where
  "referenced i s \<longleftrightarrow>
     (\<exists>h \<in> set (pending s). handler_ref h = Some i) \<or>
     (\<exists>m \<in> set (message_queue s). token_ref (snd m) = Some i)"

definition lookup_op :: "opid \<Rightarrow> 'w sess \<Rightarrow> operator option" where
  "lookup_op i s = map_of (operators s) i"

definition update_op :: "opid \<Rightarrow> operator \<Rightarrow> 'w sess \<Rightarrow> 'w sess" where
  "update_op i obj s = s\<lparr>operators := map (\<lambda>(j, x). if j = i then (j, obj) else (j, x)) (operators s)\<rparr>"

subsection \<open>The base class\<close>

definition basic_op_ctor :: "'w sess \<Rightarrow> 'w sess" where
  "basic_op_ctor s = s\<lparr>active_op_num := active_op_num s + 1\<rparr>"

definition basic_op_dtor :: "'w env \<Rightarrow> 'w sess \<Rightarrow> 'w sess" where
  "basic_op_dtor e s =
     (let s1 = s\<lparr>active_op_num := active_op_num s - 1\<rparr>
      in if \<not> exists_pending_operator s1 then
           (if \<not> stoped s1 then update_idle_timer e (max_idle_timeout (cfg e)) s1
            else cancel_idle_timer s1)
         else s1)"

definition check_data_port :: "'w env \<Rightarrow> 'w sess \<Rightarrow> crash + (bool \<times> 'w sess)" where
  "check_data_port e s =
     (if acceptor s \<noteq> AccClosed then Inr (True, s)
      else sbind (write_message e (get_code_string invalid_seq) NoToken s) (\<lambda>s. Inr (False, s)))"

definition fetch_passive_connection :: "'w env \<Rightarrow> opid \<Rightarrow> 'w sess \<Rightarrow> crash + 'w sess" where
  "fetch_passive_connection e i s =
     sbind (check_data_port e s) (\<lambda>(opened, s).
       if \<not> opened then Inr s else Inr (add_pending (OnAccept i) s))"

subsection \<open>Constructors\<close>

definition open_fd :: "int \<Rightarrow> 'w sess \<Rightarrow> 'w sess" where
  "open_fd fd s = (if fd < 0 then s else s\<lparr>open_fds := fd # open_fds s\<rparr>)"

definition close_fd :: "int \<Rightarrow> 'w sess \<Rightarrow> 'w sess" where
  "close_fd fd s = s\<lparr>open_fds := remove1 fd (open_fds s)\<rparr>"

text \<open>
  \<^verbatim>\<open>SendFileOp::SendFileOp\<close>. \<^verbatim>\<open>fs::exists\<close> and \<^verbatim>\<open>fs::file_size\<close> are the throwing
  overloads: an error leaves the constructor, and nothing catches it.
\<close>

definition send_file_ctor :: "'w env \<Rightarrow> 'w sess \<Rightarrow> crash + (send_file \<times> 'w sess)" where
  "send_file_ctor e s =
     (let o0 = \<lparr>sf_fd = 0, sf_name = [], sf_size = 0, sf_offset = 0, sf_token = False\<rparr>
      in if body (request s) = [] then
           sbind (write_message e (get_code_string_info noperm_filefatal ''File not found'') NoToken s)
             (\<lambda>s. Inr (o0, s))
         else
           let target_path = get_target_path s (body (request s))
           in sbind (os_exists (sys e) (world s) target_path) (\<lambda>found.
              if \<not> found then
                sbind (write_message e (get_code_string_info noperm_filefatal ''File not found'') NoToken s)
                  (\<lambda>s. Inr (o0, s))
              else
                sbind (os_file_size (sys e) (world s) target_path) (\<lambda>size.
                let fd = os_open_read (sys e) (world s) target_path;
                    o1 = o0\<lparr>sf_name := target_path, sf_size := size, sf_fd := fd\<rparr>
                in if fd < 0 then
                     sbind (write_message e (get_code_string_info noperm_filefatal ''Failed to open file.'') NoToken s)
                       (\<lambda>s. Inr (o1, s))
                   else Inr (o1, open_fd fd s))))"

text \<open>
  \<^verbatim>\<open>RecvFileOp::RecvFileOp\<close>. The file is opened with \<^verbatim>\<open>O_CREAT | O_TRUNC\<close>, which
  changes the file system.
\<close>

definition recv_file_ctor :: "'w env \<Rightarrow> 'w sess \<Rightarrow> crash + (recv_file \<times> 'w sess)" where
  "recv_file_ctor e s =
     (let o0 = \<lparr>rf_fd = 0, rf_name = [], rf_pipe = (0, 0), rf_token = False,
               rf_in_pipe = [], rf_written = []\<rparr>;
          refuse = (\<lambda>obj s. sbind
            (write_message e (get_code_string_info upload_fail ''Could not create file.'') NoToken s)
            (\<lambda>s. Inr (obj, s)))
      in if body (request s) = [] then refuse o0 s
         else
           let target_path = get_target_path s (body (request s))
           in sbind (if is_anonymous s then os_exists (sys e) (world s) target_path else Inr False) (\<lambda>blocked.
              if blocked then refuse o0 s
              else
                let (fd, w) = os_open_write (sys e) (world s) target_path;
                    o1 = o0\<lparr>rf_name := target_path, rf_fd := fd\<rparr>;
                    s1 = open_fd fd (s\<lparr>world := w\<rparr>)
                in if fd < 0 then refuse o1 s1
                   else (case os_pipe (sys e) w of
                           None \<Rightarrow> refuse o1 s1
                         | Some (r, wr) \<Rightarrow> Inr (o1\<lparr>rf_pipe := (r, wr)\<rparr>, open_fd wr (open_fd r s1)))))"

text \<open>
  The factory of the registry: \<^verbatim>\<open>BasicOp\<close>'s constructor, then the one of the class. The
  new operator gets the next number.
\<close>

definition construct :: "'w env \<Rightarrow> op_class \<Rightarrow> 'w sess \<Rightarrow> crash + (opid \<times> 'w sess)" where
  "construct e c s =
     (let i = next_op s; s0 = basic_op_ctor (s\<lparr>next_op := Suc (next_op s)\<rparr>);
          new = (\<lambda>obj s. Inr (i, s\<lparr>operators := operators s @ [(i, obj)]\<rparr>))
      in case c of
           SendFileOp \<Rightarrow> sbind (send_file_ctor e s0) (\<lambda>(f, s). new (Sending f) s)
         | RecvFileOp \<Rightarrow> sbind (recv_file_ctor e s0) (\<lambda>(f, s). new (Receiving f) s)
         | _ \<Rightarrow> new (Plain c) s0)"

subsection \<open>Destructors\<close>

definition close_data_socket :: "'w sess \<Rightarrow> 'w sess" where
  "close_data_socket s =
     (if data_socket s = Some SockOpen then s\<lparr>data_socket := Some SockClosed\<rparr> else s)"

fun derived_dtor :: "operator \<Rightarrow> 'w sess \<Rightarrow> 'w sess" where
  "derived_dtor (Sending f) s =
     close_data_socket (if 0 < sf_fd f then close_fd (sf_fd f) s else s)"
| "derived_dtor (Receiving f) s =
     (let s1 = (if 0 < rf_fd f then close_fd (rf_fd f) s else s);
          s2 = (if 0 < fst (rf_pipe f)
                then close_fd (fst (rf_pipe f)) (close_fd (snd (rf_pipe f)) s1) else s1)
      in close_data_socket s2)"
| "derived_dtor (Plain ListOp) s = close_data_socket s"
| "derived_dtor (Plain _) s = s"

definition destroy_op :: "'w env \<Rightarrow> opid \<Rightarrow> 'w sess \<Rightarrow> 'w sess" where
  "destroy_op e i s =
     (case lookup_op i s of
        None \<Rightarrow> s
      | Some obj \<Rightarrow>
          let s1 = derived_dtor obj s
          in basic_op_dtor e (s1\<lparr>operators := filter (\<lambda>(j, x). j \<noteq> i) (operators s1)\<rparr>))"

definition unreferenced :: "'w sess \<Rightarrow> opid list" where
  "unreferenced s = filter (\<lambda>i. \<not> referenced i s) (map fst (operators s))"

definition release :: "'w env \<Rightarrow> 'w sess \<Rightarrow> 'w sess" where
  "release e s = fold (destroy_op e) (unreferenced s) s"

end
