(* ===== verification/Control_Ops.thy ===== *)
theory Control_Ops
  imports Operators
begin

text \<open>
  The operators that answer on the control connection alone: \<^verbatim>\<open>op/ack_op.cc\<close>,
  \<^verbatim>\<open>op/syst_op.cc\<close>, \<^verbatim>\<open>op/auth_op.cc\<close>, \<^verbatim>\<open>op/property_op.cc\<close>,
  \<^verbatim>\<open>op/print_working_dir_op.cc\<close>, \<^verbatim>\<open>op/change_working_dir_op.cc\<close>,
  \<^verbatim>\<open>op/cd_to_parent.cc\<close>, \<^verbatim>\<open>op/create_dir_op.cc\<close>, \<^verbatim>\<open>op/size_op.cc\<close>,
  \<^verbatim>\<open>op/stat_op.cc\<close> and \<^verbatim>\<open>op/passive_mode_op.cc\<close>. Each is its \<^verbatim>\<open>do_operation\<close>.
\<close>

text \<open>A reply without a completion function.\<close>

definition reply :: "'w env \<Rightarrow> string \<Rightarrow> 'w sess \<Rightarrow> crash + 'w sess" where
  "reply e buffer s = write_message e buffer NoToken s"

lemma reply_eq [stepsimps]: "reply e b s = Inr (enqueue b NoToken s)"
  by (simp add: reply_def write_message_eq)

subsection \<open>NOOP, SYST, PWD\<close>

definition ack_op :: "'w env \<Rightarrow> 'w sess \<Rightarrow> crash + 'w sess" where
  "ack_op e s = reply e (get_code_string_info ok ''NOOP ok'') s"

definition syst_op :: "'w env \<Rightarrow> 'w sess \<Rightarrow> crash + 'w sess" where
  "syst_op e s = reply e (get_code_string syst_ok) s"

definition print_working_dir_op :: "'w env \<Rightarrow> 'w sess \<Rightarrow> crash + 'w sess" where
  "print_working_dir_op e s = reply e (get_pwd_response (current_path s)) s"

subsection \<open>USER, PASS and everything before the login\<close>

definition validate :: "'w env \<Rightarrow> 'w sess \<Rightarrow> crash + (bool \<times> 'w sess)" where
  "validate e s =
     (if user s = [] then
        sbind (reply e (get_code_string_info invalid_seq ''Login with USER first.'') s)
          (\<lambda>s. Inr (False, s\<lparr>password := []\<rparr>))
      else if anonymous_enable (cfg e) \<and> map tolower (user s) = ''anonymous'' then
        Inr (True, s\<lparr>is_anonymous := True, verified := True\<rparr>)
      else Inr (True, s\<lparr>is_anonymous := False, verified := True\<rparr>))"

definition auth_op :: "'w env \<Rightarrow> 'w sess \<Rightarrow> crash + 'w sess" where
  "auth_op e s =
     (if command (request s) = ''USER'' then
        reply e (get_code_string password_required) (s\<lparr>user := body (request s)\<rparr>)
      else if command (request s) = ''PASS'' then
        sbind (validate e (s\<lparr>password := body (request s)\<rparr>)) (\<lambda>(valid, s).
          if valid then reply e (get_code_string logged_on) s else Inr s)
      else reply e (get_code_string_info not_allowed ''Please login with USER and PASS.'') s)"

subsection \<open>TYPE and OPTS\<close>

definition property_op :: "'w env \<Rightarrow> 'w sess \<Rightarrow> crash + 'w sess" where
  "property_op e s0 =
     (let s = s0\<lparr>request := (request s0)\<lparr>body := map toupper (body (request s0))\<rparr>\<rparr>;
          b = body (request s)
      in if command (request s) = ''TYPE'' then
           (if b = ''I'' \<or> b = ''L8'' \<or> b = ''L 8'' then
              reply e (get_code_string_info ok ''Switching to Binary mode.'') (s\<lparr>transport := binary\<rparr>)
            else if b = ''A'' \<or> b = ''A N'' then
              reply e (get_code_string_info ok ''Switching to ASCII mode.'') (s\<lparr>transport := ascii\<rparr>)
            else reply e (get_code_string_info syntax_error ''Unrecognised TYPE command.'') s)
         else if command (request s) = ''OPTS'' then
           (if b = ''UTF8 ON'' then reply e (get_code_string_info ok ''Always in UTF8 mode.'') s
            else reply e (get_code_string_info bad_opts ''Option not understood.'') s)
         else Inr s)"

subsection \<open>CWD, CDUP, MKD, SIZE\<close>

text \<open>\<^verbatim>\<open>fs::exists(p) && fs::is_directory(p)\<close>: the second is not asked if the first is false.\<close>

definition is_existing_directory :: "'w env \<Rightarrow> 'w sess \<Rightarrow> path \<Rightarrow> crash + bool" where
  "is_existing_directory e s p =
     sbind (os_exists (sys e) (world s) p) (\<lambda>found.
       if found then os_is_directory (sys e) (world s) p else Inr False)"

definition change_to :: "'w env \<Rightarrow> path \<Rightarrow> 'w sess \<Rightarrow> crash + 'w sess" where
  "change_to e target_path s =
     sbind (is_existing_directory e s target_path) (\<lambda>dir.
       if dir then
         sbind (os_canonical (sys e) (world s) target_path) (\<lambda>p.
           let s1 = s\<lparr>current_path := p\<rparr>
           in reply e (get_cwd_response (Some (current_path s1))) s1)
       else reply e (get_cwd_response None) s)"

definition change_working_dir_op :: "'w env \<Rightarrow> 'w sess \<Rightarrow> crash + 'w sess" where
  "change_working_dir_op e s =
     (if body (request s) = [] then reply e (get_cwd_response (Some (current_path s))) s
      else change_to e (get_target_path s (body (request s))) s)"

definition cd_to_parent_op :: "'w env \<Rightarrow> 'w sess \<Rightarrow> crash + 'w sess" where
  "cd_to_parent_op e s = change_to e (get_target_path s ''..'') s"

definition create_dir_op :: "'w env \<Rightarrow> 'w sess \<Rightarrow> crash + 'w sess" where
  "create_dir_op e s =
     (if \<not> write_enable (cfg e) then
        reply e (get_code_string_info noperm_filefatal ''Permission denied.'') s
      else if body (request s) = [] then
        reply e (get_code_string_info noperm_filefatal ''Create directory operation failed.'') s
      else
        let target_path = get_target_path s (body (request s))
        in sbind (os_exists (sys e) (world s) target_path) (\<lambda>found.
           if found then
             reply e (get_code_string_info noperm_filefatal ''Create directory operation failed.'') s
           else
             sbind (os_create_directory (sys e) (world s) target_path) (\<lambda>w.
             let s1 = s\<lparr>world := w\<rparr>
             in sbind (is_existing_directory e s1 target_path) (\<lambda>dir.
                if dir then
                  sbind (os_canonical (sys e) (world s1) target_path) (\<lambda>p.
                    reply e (get_code_string_info pwd_or_mkdir_ok (quote @ p @ quote @ '' created.'')) s1)
                else
                  reply e (get_code_string_info noperm_filefatal ''Create directory operation failed.'') s1))))"

definition size_op :: "'w env \<Rightarrow> 'w sess \<Rightarrow> crash + 'w sess" where
  "size_op e s =
     (let p = get_target_path s (body (request s));
          refuse = reply e (get_code_string_info noperm_filefatal ''Could not get file size.'') s
      in sbind (os_exists (sys e) (world s) p) (\<lambda>found.
         if \<not> found then refuse
         else sbind (os_is_regular_file (sys e) (world s) p) (\<lambda>regular.
           if \<not> regular then refuse
           else sbind (os_file_size (sys e) (world s) p) (\<lambda>size.
             reply e (get_code_string_info size_or_mdtm_ok (show_nat (unat size))) s))))"

subsection \<open>STAT\<close>

definition type_to_string :: "transport_type \<Rightarrow> string" where
  "type_to_string t = (if t = ascii then ''ASCII'' else if t = binary then ''BINARY'' else [])"

definition stat_text :: "'w env \<Rightarrow> string \<Rightarrow> 'w sess \<Rightarrow> string" where
  "stat_text e addr s =
     show_nat (code_num stat_ok) @ ''-FTP server status:'' @ newline @
     ''  Connected to '' @ addr @ newline @
     ''  Logged in as '' @ user s @ newline @
     ''  TYPE: '' @ type_to_string (transport s) @ newline @
     ''  Session timeout in seconds is '' @ show_int (max_idle_timeout (cfg e)) @ newline @
     ''  Total client connected num is '' @ show_int (clients e) @ newline @
     show_nat (code_num stat_ok) @ '' End of status'' @ crlf"

definition stat_op :: "'w env \<Rightarrow> 'w sess \<Rightarrow> crash + 'w sess" where
  "stat_op e s = sbind (control_addr e) (\<lambda>addr. reply e (stat_text e addr s) s)"

subsection \<open>PASV\<close>

text \<open>
  The acceptor is closed, opened, bound to port 0 and put into the listening state. After
  a failed \<^verbatim>\<open>bind\<close> it is left open; \<^verbatim>\<open>set_option\<close> and \<^verbatim>\<open>listen\<close> are the throwing
  overloads.
\<close>

definition passive_mode_op :: "'w env \<Rightarrow> 'w sess \<Rightarrow> crash + 'w sess" where
  "passive_mode_op e s0 =
     (let s = s0\<lparr>acceptor := AccClosed\<rparr>;
          refuse = reply e (get_code_string_info noperm_filefatal ''Permission denied.'')
      in if \<not> acc_open_ok e then refuse s
         else if \<not> acc_option_ok e then Inl SystemError
         else if \<not> acc_bind_ok e then refuse (s\<lparr>acceptor := AccOpened\<rparr>)
         else if \<not> acc_listen_ok e then Inl SystemError
         else sbind (control_addr e) (\<lambda>addr.
              reply e (get_pasv_response addr (acc_port e)) (s\<lparr>acceptor := AccListening (acc_port e)\<rparr>)))"

end
