(* ===== verification/Listing.thy ===== *)
theory Listing
  imports Operators
begin

unbundle bit_operations_syntax

text \<open>
  \<^verbatim>\<open>op/list_op.cc\<close>: the listing of a directory and the operator that sends it.
\<close>

subsection \<open>The text of a listing\<close>

definition month_mapping :: "string list" where
  "month_mapping = [''Jan'', ''Feb'', ''Mar'', ''Apr'', ''May'', ''Jun'', ''Jul'', ''Aug'',
                    ''Sept'', ''Oct'', ''Nov'', ''Dec'']"

fun type_char :: "file_type \<Rightarrow> string" where
  "type_char ft_directory = ''d''"
| "type_char ft_block = ''b''"
| "type_char ft_character = ''c''"
| "type_char ft_fifo = ''p''"
| "type_char ft_regular = ''-''"
| "type_char ft_symlink = ''l''"
| "type_char ft_socket = ''s''"
| "type_char _ = []"

definition perm_char :: "u32 \<Rightarrow> u32 \<Rightarrow> string \<Rightarrow> string" where
  "perm_char file_perm flag c = (if file_perm AND flag \<noteq> 0 then c else ''-'')"

definition perm_string :: "u32 \<Rightarrow> string" where
  "perm_string p =
     perm_char p 256 ''r'' @ perm_char p 128 ''w'' @ perm_char p 64 ''x'' @
     perm_char p 32 ''r'' @ perm_char p 16 ''w'' @ perm_char p 8 ''x'' @
     perm_char p 4 ''r'' @ perm_char p 2 ''w'' @ perm_char p 1 ''x''"

text \<open>
  One line. The status, the number of links and the size are asked with the throwing
  overloads; a failed \<^verbatim>\<open>stat\<close> leaves the time zero. The index into \<^verbatim>\<open>month_mapping\<close> is not checked by the code; an index outside
  the array is undefined behaviour and modelled as an abnormal end.
\<close>

definition list_entry :: "'w env \<Rightarrow> dirent \<Rightarrow> crash + string" where
  "list_entry e it =
     sbind (de_status it) (\<lambda>(ty, perms).
     sbind (de_links it) (\<lambda>links.
     sbind (if ty = ft_regular then map_sum id show_nat (de_size it) else Inr ''0'') (\<lambda>size.
     let t = (if use_local_time (cfg e) then os_localtime (sys e) (de_mtime it)
              else os_gmtime (sys e) (de_mtime it))
     in if tm_mon t < 0 \<or> 12 \<le> tm_mon t then Inl LogicError
        else Inr (type_char ty @ perm_string perms @ '' '' @
               show_nat links @ '' ftpd ftpd '' @ size @ '' '' @
               month_mapping ! nat (tm_mon t) @ '' '' @ show_int (tm_mday t) @ '' '' @
               show_int (tm_hour t) @ '':'' @ show_int (tm_min t) @ '' '' @ de_name it @ crlf))))"

fun list_entries :: "'w env \<Rightarrow> dirent list \<Rightarrow> string \<Rightarrow> crash + string" where
  "list_entries e [] out = Inr out"
| "list_entries e (it # its) out =
     sbind (list_entry e it) (\<lambda>line. list_entries e its (out @ line))"

definition list_file :: "'w env \<Rightarrow> path \<Rightarrow> 'w \<Rightarrow> crash + string" where
  "list_file e p w = sbind (os_directory_iterator (sys e) w p) (\<lambda>its. list_entries e its [])"

subsection \<open>The operator\<close>

definition list_op :: "'w env \<Rightarrow> opid \<Rightarrow> 'w sess \<Rightarrow> crash + 'w sess" where
  "list_op e i s = fetch_passive_connection e i s"

text \<open>\<^verbatim>\<open>handle_data_connection\<close>: the listing is made when the peer has connected.\<close>

definition handle_data_connection :: "'w env \<Rightarrow> opid \<Rightarrow> 'w sess \<Rightarrow> crash + 'w sess" where
  "handle_data_connection e i s =
     sbind (list_file e (current_path s) (world s)) (\<lambda>response.
       write_message e (get_code_string data_conn) (ListToken i response) s)"

text \<open>The function queued with the 150 reply: it writes the listing to the data socket.\<close>

definition list_send :: "opid \<Rightarrow> string \<Rightarrow> 'w sess \<Rightarrow> crash + 'w sess" where
  "list_send i response s =
     (case data_socket s of
        None \<Rightarrow> Inl NullDeref
      | Some d \<Rightarrow> Inr (add_pending (OnListWritten i response) s))"

text \<open>The handler of that write. The error code is not looked at.\<close>

definition list_written :: "'w env \<Rightarrow> string \<Rightarrow> 'w sess \<Rightarrow> crash + 'w sess" where
  "list_written e response s0 =
     (let s = (if ec_of e = Success then s0\<lparr>listings := listings s0 @ [response]\<rparr> else s0)
      in sbind (write_message e (get_code_string transfer_complete) NoToken s)
           (\<lambda>s. Inr (clear_data_socket s)))"

subsection \<open>Facts\<close>

lemma perm_char_length [simp]: "length c = 1 \<Longrightarrow> length (perm_char p b c) = 1"
  by (simp add: perm_char_def)

lemma perm_string_length: "length (perm_string p) = 9"
  by (simp add: perm_string_def)

lemma list_entries_acc: "list_entries e its out = sbind (list_entries e its []) (\<lambda>r. Inr (out @ r))"
proof (induction its arbitrary: out)
  case (Cons it its)
  show ?case
  proof (cases "list_entry e it")
    case (Inr line)
    have "list_entries e its (out @ line) = sbind (list_entries e its []) (\<lambda>r. Inr ((out @ line) @ r))"
      by (rule Cons)
    also have "\<dots> = sbind (list_entries e its line) (\<lambda>r. Inr (out @ r))"
      by (subst (2) Cons) (cases "list_entries e its []"; simp)
    finally show ?thesis using Inr by simp
  qed simp
qed simp

text \<open>The listing is one line per entry, in the order of the directory, with its name at the end.\<close>

lemma list_entry_line:
  "list_entry e it = Inr l \<Longrightarrow>
   \<exists>ty perms x. de_status it = Inr (ty, perms) \<and> l = type_char ty @ perm_string perms @ x @ de_name it @ crlf"
  by (cases "de_status it"; cases "de_links it")
     (auto simp: list_entry_def sbind_Inr_iff Let_def split: if_splits)

lemma list_entries_lines:
  "list_entries e its out = Inr r \<Longrightarrow>
   \<exists>lines. r = out @ concat lines \<and> list_all2 (\<lambda>it l. list_entry e it = Inr l) its lines"
proof (induction its arbitrary: out)
  case (Cons it its)
  then obtain l where l: "list_entry e it = Inr l" "list_entries e its (out @ l) = Inr r"
    by (auto simp: sbind_Inr_iff)
  with Cons.IH [OF l(2)] obtain lines where "r = (out @ l) @ concat lines"
    "list_all2 (\<lambda>it l. list_entry e it = Inr l) its lines" by blast
  with l(1) show ?case by (intro exI [of _ "l # lines"]) simp
qed simp

lemma list_file_lines:
  assumes "list_file e p w = Inr r"
  shows "\<exists>its lines. os_directory_iterator (sys e) w p = Inr its \<and> r = concat lines \<and>
           list_all2 (\<lambda>it l. list_entry e it = Inr l \<and> (\<exists>ty perms x. de_status it = Inr (ty, perms) \<and>
             l = type_char ty @ perm_string perms @ x @ de_name it @ crlf)) its lines"
proof -
  obtain its where its: "os_directory_iterator (sys e) w p = Inr its" "list_entries e its [] = Inr r"
    using assms by (auto simp: list_file_def sbind_Inr_iff)
  from list_entries_lines [OF its(2)] obtain lines where l: "r = concat lines"
    "list_all2 (\<lambda>it l. list_entry e it = Inr l) its lines" by auto
  from l(2) have "list_all2 (\<lambda>it l. list_entry e it = Inr l \<and> (\<exists>ty perms x. de_status it = Inr (ty, perms) \<and>
             l = type_char ty @ perm_string perms @ x @ de_name it @ crlf)) its lines"
    by (rule list_all2_mono) (use list_entry_line in blast)
  with its(1) l(1) show ?thesis by blast
qed

end
