(* ===== verification/Transfers.thy ===== *)
theory Transfers
  imports Operators
begin

text \<open>
  \<^verbatim>\<open>op/send_file_op.cc\<close> and \<^verbatim>\<open>op/recv_file_op.cc\<close>: the transfer of a file to the data
  socket with \<^verbatim>\<open>sendfile\<close> and from it with two \<^verbatim>\<open>splice\<close> calls through a pipe.
\<close>

subsection \<open>Sending\<close>

definition time_splice :: nat where
  "time_splice = 10"

text \<open>
  \<^verbatim>\<open>get_download_speed_limit_in_kb_per_s() * 1024 / time_splice\<close>: the 16-bit limit is
  promoted to \<^verbatim>\<open>int\<close>, where the product fits, and the quotient becomes a \<^verbatim>\<open>size_t\<close>.
\<close>

definition slice_size :: "config \<Rightarrow> u64" where
  "slice_size c = of_nat (unat (download_speed_limit_in_kb_per_s c) * 1024 div time_splice)"

text \<open>The count handed to \<^verbatim>\<open>sendfile\<close>; the subtraction is unsigned.\<close>

definition sendfile_count :: "send_file \<Rightarrow> u64 \<Rightarrow> u64" where
  "sendfile_count f limit =
     (if limit = 0 then sf_size f - sf_offset f else min (sf_size f - sf_offset f) limit)"

definition do_send_file :: "opid \<Rightarrow> 'w sess \<Rightarrow> crash + 'w sess" where
  "do_send_file i s =
     (if data_socket s = None then Inl NullDeref else Inr (add_pending (OnSendReady i) s))"

text \<open>The completion token of both transfers.\<close>

definition transfer_completed :: "'w env \<Rightarrow> 'w sess \<Rightarrow> crash + 'w sess" where
  "transfer_completed e s =
     sbind (write_message e (get_code_string transfer_complete) NoToken s)
       (\<lambda>s. Inr (clear_data_socket s))"

text \<open>
  \<^verbatim>\<open>deal_event\<close>. Setting the non-blocking mode throws on a closed socket. \<^verbatim>\<open>sendfile\<close>
  moves at most the count it is given: \<open>SfBytes n\<close> is a kernel ready to take \<open>n\<close>.
\<close>

definition send_deal_event :: "'w env \<Rightarrow> opid \<Rightarrow> u64 \<Rightarrow> 'w sess \<Rightarrow> crash + 'w sess" where
  "send_deal_event e i limit s =
     (if ec_of e \<noteq> Success then Inr s
      else case lookup_op i s of
        Some (Sending f) \<Rightarrow>
          (case data_socket s of
             None \<Rightarrow> Inl NullDeref
           | Some SockClosed \<Rightarrow> Inl SystemError
           | Some SockOpen \<Rightarrow>
               (case sendfile_res e of
                  SfAgain \<Rightarrow> do_send_file i s
                | SfError \<Rightarrow> Inr s
                | SfBytes n \<Rightarrow>
                    let ret = min n (sendfile_count f limit);
                        f1 = f\<lparr>sf_offset := sf_offset f + ret\<rparr>;
                        s1 = update_op i (Sending f1) s
                    in if 0 < sf_size f1 - sf_offset f1 then
                         (if limit = 0 then do_send_file i s1
                          else Inr (add_pending (OnLimiter i) s1))
                       else if sf_token f1 then transfer_completed e s1 else Inr s1))
      | _ \<Rightarrow> Inl UseAfterFree)"

definition send_file_op :: "'w env \<Rightarrow> opid \<Rightarrow> send_file \<Rightarrow> 'w sess \<Rightarrow> crash + 'w sess" where
  "send_file_op e i f s =
     (if sf_fd f \<le> 0 then Inr s
      else fetch_passive_connection e i (update_op i (Sending (f\<lparr>sf_token := True\<rparr>)) s))"

text \<open>
  The continuation of the accept. The error code tested after \<^verbatim>\<open>set_option\<close> is never
  set, since the throwing overload is called: a failure throws instead.
\<close>

definition send_connected :: "'w env \<Rightarrow> opid \<Rightarrow> 'w sess \<Rightarrow> crash + 'w sess" where
  "send_connected e i s =
     (if \<not> nodelay_ok e then Inl SystemError
      else write_message e (get_code_string data_conn) (SendToken i) s)"

subsection \<open>Receiving\<close>

text \<open>
  The inner loop: \<^verbatim>\<open>while (bytes_in_pipe > 0)\<close> with one \<^verbatim>\<open>splice\<close> from the pipe to the
  file per round, whose result is subtracted as it is. \<open>None\<close>: the loop is still running
  when the results are used up. The contents of pipe and file come back.
\<close>

fun drain_pipe :: "int \<Rightarrow> string \<Rightarrow> string \<Rightarrow> int list \<Rightarrow> (string \<times> string) option" where
  "drain_pipe bytes_in_pipe pipe file rets =
     (if bytes_in_pipe \<le> 0 then Some (pipe, file)
      else case rets of
        [] \<Rightarrow> None
      | pipe_ret # rets' \<Rightarrow>
          drain_pipe (bytes_in_pipe - pipe_ret) (drop (nat pipe_ret) pipe)
            (file @ take (nat pipe_ret) pipe) rets')"

declare drain_pipe.simps [simp del]

datatype splice_end = LoopDone string string | LoopError string string | LoopRunning

text \<open>The outer loop over the \<^verbatim>\<open>splice\<close> calls from the socket to the pipe.\<close>

fun splice_loop :: "(splice_in \<times> int list) list \<Rightarrow> string \<Rightarrow> string \<Rightarrow> splice_end" where
  "splice_loop [] pipe file = LoopRunning"
| "splice_loop ((r, outs) # rs) pipe file =
     (case r of
        SpEof \<Rightarrow> LoopDone pipe file
      | SpIntr \<Rightarrow> splice_loop rs pipe file
      | SpAgain \<Rightarrow> LoopDone pipe file
      | SpError \<Rightarrow> LoopError pipe file
      | SpData d \<Rightarrow>
          if d = [] then LoopDone pipe file
          else (case drain_pipe (int (length d)) (pipe @ d) file outs of
                  None \<Rightarrow> LoopRunning
                | Some (pipe', file') \<Rightarrow> splice_loop rs pipe' file'))"

definition do_recv_file :: "opid \<Rightarrow> 'w sess \<Rightarrow> crash + 'w sess" where
  "do_recv_file i s =
     (if data_socket s = None then Inl NullDeref else Inr (add_pending (OnRecvReady i) s))"

definition recv_deal_event :: "'w env \<Rightarrow> opid \<Rightarrow> 'w sess \<Rightarrow> crash + 'w sess" where
  "recv_deal_event e i s =
     (if ec_of e \<noteq> Success then Inr s
      else case lookup_op i s of
        Some (Receiving f) \<Rightarrow>
          (case data_socket s of
             None \<Rightarrow> Inl NullDeref
           | Some SockClosed \<Rightarrow> Inl SystemError
           | Some SockOpen \<Rightarrow>
               sbind (available e) (\<lambda>avail.
               if avail = 0 then
                 (if rf_token f then transfer_completed e s else Inr s)
               else
                 (case splice_loop (splices e) (rf_in_pipe f) (rf_written f) of
                    LoopRunning \<Rightarrow> Inl Hang
                  | LoopError p w \<Rightarrow>
                      Inr (update_op i (Receiving (f\<lparr>rf_in_pipe := p, rf_written := w\<rparr>)) s)
                  | LoopDone p w \<Rightarrow>
                      do_recv_file i
                        (update_op i (Receiving (f\<lparr>rf_in_pipe := p, rf_written := w\<rparr>)) s))))
      | _ \<Rightarrow> Inl UseAfterFree)"

definition recv_file_op :: "'w env \<Rightarrow> opid \<Rightarrow> recv_file \<Rightarrow> 'w sess \<Rightarrow> crash + 'w sess" where
  "recv_file_op e i f s =
     (if rf_fd f \<le> 0 then Inr s
      else fetch_passive_connection e i (update_op i (Receiving (f\<lparr>rf_token := True\<rparr>)) s))"

definition recv_connected :: "'w env \<Rightarrow> opid \<Rightarrow> 'w sess \<Rightarrow> crash + 'w sess" where
  "recv_connected e i s = write_message e (get_code_string data_conn) (RecvToken i) s"

end
