(* ===== verification/Session_Loop.thy ===== *)
theory Session_Loop
  imports Control_Ops Listing Transfers
begin

text \<open>
  \<^verbatim>\<open>session/session.cc\<close>: reading requests, dispatching them to operators, the idle timer,
  the end of a session; and the session as a state machine whose steps are the completions
  of its asynchronous operations.
\<close>

subsection \<open>Dispatch\<close>

text \<open>The virtual call \<^verbatim>\<open>op->do_operation()\<close>.\<close>

definition do_operation :: "'w env \<Rightarrow> opid \<Rightarrow> 'w sess \<Rightarrow> crash + 'w sess" where
  "do_operation e i s =
     (case lookup_op i s of
        None \<Rightarrow> Inl UseAfterFree
      | Some (Sending f) \<Rightarrow> send_file_op e i f s
      | Some (Receiving f) \<Rightarrow> recv_file_op e i f s
      | Some (Plain c) \<Rightarrow>
          (case c of
             AckOp \<Rightarrow> ack_op e s
           | AuthOp \<Rightarrow> auth_op e s
           | CreateDirOp \<Rightarrow> create_dir_op e s
           | StatOp \<Rightarrow> stat_op e s
           | SystOp \<Rightarrow> syst_op e s
           | PrintWorkingDirOp \<Rightarrow> print_working_dir_op e s
           | ChangeWorkingDirOp \<Rightarrow> change_working_dir_op e s
           | PropertyOp \<Rightarrow> property_op e s
           | PassiveModeOp \<Rightarrow> passive_mode_op e s
           | ListOp \<Rightarrow> list_op e i s
           | SizeOp \<Rightarrow> size_op e s
           | CdToParentOp \<Rightarrow> cd_to_parent_op e s
           | SendFileOp \<Rightarrow> Inl UseAfterFree
           | RecvFileOp \<Rightarrow> Inl UseAfterFree))"

text \<open>
  Creating the operator, running it, and dropping the local reference at the end of the
  block.
\<close>

definition run_op :: "'w env \<Rightarrow> op_class \<Rightarrow> 'w sess \<Rightarrow> crash + 'w sess" where
  "run_op e c s =
     sbind (construct e c s) (\<lambda>(i, s).
     sbind (do_operation e i s) (\<lambda>s. Inr (release e s)))"

definition dispatch_task :: "'w env \<Rightarrow> 'w sess \<Rightarrow> crash + (bool \<times> 'w sess)" where
  "dispatch_task e s =
     (if \<not> verified s then
        (case create ''AUTH'' regist_all_operation of
           None \<Rightarrow> Inl NullDeref
         | Some c \<Rightarrow> sbind (run_op e c s) (\<lambda>s. Inr (True, s)))
      else if command (request s) = ''USER'' then
        sbind (reply e (get_code_string_info not_allowed (''Can'' @ [CHR 0x27] @ ''t change to another user.'')) s)
          (\<lambda>s. Inr (False, s))
      else if command (request s) = ''PASS'' then
        sbind (reply e (get_code_string_info logged_on ''Already logged in.'') s) (\<lambda>s. Inr (False, s))
      else
        (case create (command (request s)) regist_all_operation of
           None \<Rightarrow> sbind (reply e (get_code_string syntax_error) s) (\<lambda>s. Inr (False, s))
         | Some c \<Rightarrow> sbind (run_op e c s) (\<lambda>s. Inr (True, s))))"

text \<open>
  \<^verbatim>\<open>handle_read\<close>: the first \<open>n\<close> bytes of the buffer are one line. When no request was
  dispatched and nothing is pending the idle timer starts again.
\<close>

definition restart_if_idle :: "'w env \<Rightarrow> 'w sess \<Rightarrow> 'w sess" where
  "restart_if_idle e s =
     (if \<not> exists_pending_operator s then update_idle_timer e (max_idle_timeout (cfg e)) s else s)"

definition handle_read :: "'w env \<Rightarrow> nat \<Rightarrow> 'w sess \<Rightarrow> crash + 'w sess" where
  "handle_read e n s =
     (let line = take n (buf s);
          (built, req) = parse_line line (request s);
          s1 = s\<lparr>buf := drop n (buf s), request := req\<rparr>
      in if \<not> built then Inr (restart_if_idle e s1)
         else sbind (dispatch_task e s1) (\<lambda>(dispatched, s).
                Inr (if \<not> dispatched then restart_if_idle e s else s)))"

subsection \<open>Life of a session\<close>

definition start_idle_timer :: "'w sess \<Rightarrow> 'w sess" where
  "start_idle_timer s = add_pending OnIdle s"

definition do_read :: "'w sess \<Rightarrow> 'w sess" where
  "do_read s = add_pending OnRead s"

definition close :: "'w sess \<Rightarrow> 'w sess" where
  "close s = s\<lparr>stoped := True, control_open := False, keep_cancelled := True\<rparr>"

definition start :: "config \<Rightarrow> 'w sess \<Rightarrow> 'w sess" where
  "start c s =
     (let welcome_banner = (if ftpd_banner c = [] then ''Welcome to ftpd.'' else ftpd_banner c);
          buffer = get_code_string_info welcome_ready welcome_banner
      in add_pending (OnBanner buffer) (s\<lparr>submitted := submitted s @ [buffer]\<rparr>))"

definition on_banner :: "'w env \<Rightarrow> string \<Rightarrow> 'w sess \<Rightarrow> crash + 'w sess" where
  "on_banner e buffer s =
     (if ec_of e = Success then
        Inr (start_idle_timer (do_read (update_idle_timer e (max_idle_timeout (cfg e))
              (s\<lparr>sent := sent s @ [buffer]\<rparr>))))
      else Inr (s\<lparr>dropped := dropped s @ [buffer]\<rparr>))"

text \<open>The handler of \<^verbatim>\<open>start_idle_timer\<close>; it does not look at its error code.\<close>

definition on_idle :: "'w env \<Rightarrow> 'w sess \<Rightarrow> crash + 'w sess" where
  "on_idle e s =
     (if stoped s then Inr s
      else if (case timer_expiry s of Never \<Rightarrow> True | At t \<Rightarrow> now e < t) then Inr (start_idle_timer s)
      else Inr (close s))"

text \<open>
  The handler of \<^verbatim>\<open>do_read\<close>. At the end of the input the session is closed, and with
  operators still alive a wait that nothing but a cancel ends keeps the session alive.
\<close>

definition on_read :: "'w env \<Rightarrow> 'w sess \<Rightarrow> crash + 'w sess" where
  "on_read e s =
     (case ec_of e of
        Eof \<Rightarrow>
          let s1 = close s
          in if active_op_num s1 \<noteq> 0 then
               Inr ((add_pending OnKeepAlive (expires_never s1))\<lparr>keep_cancelled := False\<rparr>)
             else Inr s1
      | Aborted \<Rightarrow> Inr s
      | OtherError \<Rightarrow> Inr s
      | Success \<Rightarrow>
          sbind (handle_read e (read_n e) (expires_never (s\<lparr>buf := buf s @ chunk e\<rparr>)))
            (\<lambda>s. Inr (do_read s)))"

text \<open>
  The handler of the control write. On an error the queue is swapped with an empty one.
  Otherwise the function of the first message runs, the message goes, and with it its
  references, and the next write starts.
\<close>

definition run_token :: "token \<Rightarrow> 'w sess \<Rightarrow> crash + 'w sess" where
  "run_token t s =
     (case t of
        NoToken \<Rightarrow> Inr s
      | SendToken i \<Rightarrow> do_send_file i s
      | RecvToken i \<Rightarrow> do_recv_file i s
      | ListToken i response \<Rightarrow> list_send i response s)"

definition on_write :: "'w env \<Rightarrow> 'w sess \<Rightarrow> crash + 'w sess" where
  "on_write e s =
     (if ec_of e \<noteq> Success then Inr (release e (s\<lparr>message_queue := [],
                                 dropped := dropped s @ map fst (message_queue s)\<rparr>))
      else case message_queue s of
        [] \<Rightarrow> Inl EmptyQueue
      | (buffer, t) # ms \<Rightarrow>
          sbind (run_token t (s\<lparr>sent := sent s @ [buffer]\<rparr>)) (\<lambda>s.
          do_write_message e (release e (s\<lparr>message_queue := tl (message_queue s)\<rparr>))))"

text \<open>
  The handler of \<^verbatim>\<open>fetch_passive_connection\<close>, with the continuation of the operator's
  class. The log line for a cancelled accept asks the acceptor for its port, which throws
  when the acceptor is closed.
\<close>

definition on_accept :: "'w env \<Rightarrow> opid \<Rightarrow> 'w sess \<Rightarrow> crash + 'w sess" where
  "on_accept e i s =
     (if ec_of e = Aborted then (if acceptor s = AccClosed then Inl SystemError else Inr s)
      else
        let s1 = s\<lparr>acceptor := AccClosed\<rparr>
        in if ec_of e \<noteq> Success then Inr s1
           else if \<not> nonblock_ok e then Inl SystemError
           else
             let s2 = set_data_socket s1
             in (case lookup_op i s2 of
                   Some (Sending f) \<Rightarrow> send_connected e i s2
                 | Some (Receiving f) \<Rightarrow> recv_connected e i s2
                 | Some (Plain c) \<Rightarrow> handle_data_connection e i s2
                 | None \<Rightarrow> Inl UseAfterFree))"

definition handler_body :: "'w env \<Rightarrow> handler \<Rightarrow> 'w sess \<Rightarrow> crash + 'w sess" where
  "handler_body e h s =
     (case h of
        OnBanner buffer \<Rightarrow> on_banner e buffer s
      | OnRead \<Rightarrow> on_read e s
      | OnIdle \<Rightarrow> on_idle e s
      | OnKeepAlive \<Rightarrow> Inr s
      | OnWrite \<Rightarrow> on_write e s
      | OnAccept i \<Rightarrow> on_accept e i s
      | OnSendReady i \<Rightarrow> send_deal_event e i (slice_size (cfg e)) s
      | OnLimiter i \<Rightarrow> send_deal_event e i (slice_size (cfg e)) s
      | OnRecvReady i \<Rightarrow> recv_deal_event e i s
      | OnListWritten i response \<Rightarrow> list_written e response s)"

subsection \<open>One completion\<close>

text \<open>
  The handlers that capture a \<^verbatim>\<open>shared_ptr\<close> to the session; the others capture a raw
  pointer. When the last owner is gone the session and its context are destroyed.
\<close>

fun owns_session :: "handler \<Rightarrow> bool" where
  "owns_session (OnBanner b) = True"
| "owns_session OnRead = True"
| "owns_session OnKeepAlive = True"
| "owns_session _ = False"

definition drop_session :: "'w sess \<Rightarrow> 'w sess" where
  "drop_session s =
     (if \<exists>h \<in> set (pending s). owns_session h then s
      else s\<lparr>destroyed := True, acceptor := AccClosed, control_open := False, data_socket := None\<rparr>)"

text \<open>
  A completed operation leaves the pending ones, its handler runs, and what the handler
  captured is released. A handler that runs after the session is gone uses freed memory.
\<close>

definition complete :: "'w env \<Rightarrow> handler \<Rightarrow> 'w sess \<Rightarrow> crash + 'w sess" where
  "complete e h s =
     (if destroyed s then Inl UseAfterFree
      else sbind (handler_body e h (s\<lparr>pending := remove1 h (pending s)\<rparr>)) (\<lambda>s.
           Inr (drop_session (release e s))))"

text \<open>
  Which completions asio delivers: only those of pending operations, and the wait that
  keeps a closed session alive only after a cancel.
\<close>

definition deliverable :: "handler \<Rightarrow> 'w sess \<Rightarrow> bool" where
  "deliverable h s \<longleftrightarrow> h \<in> set (pending s) \<and> (h = OnKeepAlive \<longrightarrow> keep_cancelled s)"

text \<open>
  A step of the session, in an environment of which \<open>E\<close> is known: a completion, or a
  change of the file system by others.
\<close>

inductive sess_step :: "('w env \<Rightarrow> bool) \<Rightarrow> 'w sess \<Rightarrow> 'w sess \<Rightarrow> bool" for E where
  completion: "E e \<Longrightarrow> deliverable h s \<Longrightarrow> complete e h s = Inr s' \<Longrightarrow> sess_step E s s'"
| world_changes: "sess_step E s (s\<lparr>world := w\<rparr>)"

inductive_cases sess_stepE: "sess_step E s s'"

definition started :: "u32 \<Rightarrow> 'w sess \<Rightarrow> bool" where
  "started n0 s \<longleftrightarrow> (\<exists>peer home w s0 c. new_session (Inr peer) home n0 w = Inr s0 \<and> s = start c s0)"

definition reachable :: "('w env \<Rightarrow> bool) \<Rightarrow> u32 \<Rightarrow> 'w sess \<Rightarrow> bool" where
  "reachable E n0 s \<longleftrightarrow> (\<exists>s0. started n0 s0 \<and> (sess_step E)\<^sup>*\<^sup>* s0 s)"

text \<open>A run as a function, for concrete executions: the completions in order.\<close>

fun run :: "('w env \<times> handler) list \<Rightarrow> 'w sess \<Rightarrow> crash + 'w sess" where
  "run [] s = Inr s"
| "run ((e, h) # es) s =
     (if deliverable h s then sbind (complete e h s) (run es) else Inr s)"

end
