(* ===== verification/Server.thy ===== *)
theory Server
  imports Session_Loop
begin

text \<open>
  \<^verbatim>\<open>server.h\<close>, \<^verbatim>\<open>server.cc\<close> and \<^verbatim>\<open>main.cc\<close>: the acceptor that hands every new
  connection to the next worker, and the start of the process. A worker is an
  \<^verbatim>\<open>io_context\<close> with one thread; it is modelled by its index in \<^verbatim>\<open>works_\<close>. The counter
  of \<^verbatim>\<open>Config\<close> goes up with an accepted connection and down in \<^verbatim>\<open>Session::~Session\<close>.
\<close>

subsection \<open>State and operations\<close>

record 'w server =
  works :: nat
  work_index :: u32
  srv_stoped :: bool
  accepting :: "nat option"
  assigned :: "(nat \<times> 'w sess) list"
  client_count :: u32
  gone :: nat

text \<open>
  The constructor: the acceptor throws when the port cannot be bound, and one worker is
  made per hardware thread; the standard lets \<^verbatim>\<open>hardware_concurrency\<close> answer 0.
\<close>

definition new_server :: "bool \<Rightarrow> nat \<Rightarrow> u32 \<Rightarrow> crash + 'w server" where
  "new_server bind_ok hardware_concurrency count =
     (if \<not> bind_ok then Inl SystemError
      else Inr \<lparr>works = hardware_concurrency, work_index = 0, srv_stoped = False, accepting = None,
                assigned = [], client_count = count, gone = 0\<rparr>)"

text \<open>\<^verbatim>\<open>works_[(work_index_++) % works_.size()]\<close>: the index is widened before the remainder.\<close>

definition do_accept :: "'w server \<Rightarrow> crash + 'w server" where
  "do_accept s =
     (if works s = 0 then Inl DivByZero
      else Inr (s\<lparr>work_index := work_index s + 1,
                  accepting := Some (unat (work_index s) mod works s)\<rparr>))"

text \<open>\<^verbatim>\<open>Server::start\<close>: the first accept, after which the main thread runs the event loop.\<close>

definition server_start :: "'w server \<Rightarrow> crash + 'w server" where
  "server_start s = do_accept s"

text \<open>
  The handler of the accept. The session's constructor asks the socket for the peer's
  address, which throws when the peer is gone already.
\<close>

definition on_client ::
  "config \<Rightarrow> bool \<Rightarrow> crash + string \<Rightarrow> path \<Rightarrow> u32 \<Rightarrow> 'w \<Rightarrow> 'w server \<Rightarrow> crash + 'w server" where
  "on_client c accepted remote_endpoint home n0 w s =
     (case accepting s of
        None \<Rightarrow> Inr s
      | Some worker \<Rightarrow>
          sbind (if accepted then
                   let s1 = s\<lparr>client_count := inc_client_num (client_count s)\<rparr>
                   in sbind (new_session remote_endpoint home n0 w) (\<lambda>session.
                        Inr (s1\<lparr>assigned := assigned s1 @ [(worker, start c session)]\<rparr>))
                 else Inr s) (\<lambda>s.
          if srv_stoped s then Inr (s\<lparr>accepting := None\<rparr>) else do_accept (s\<lparr>accepting := None\<rparr>)))"

text \<open>The destructor of a session.\<close>

definition session_gone :: "'w server \<Rightarrow> 'w server" where
  "session_gone s = s\<lparr>client_count := dec_client_num (client_count s), gone := Suc (gone s)\<rparr>"

text \<open>
  \<^verbatim>\<open>main\<close>: without an argument it ends with -1 (\<open>None\<close>); else the operations are
  registered, the configuration is read and the server starts to accept.
\<close>

definition main_ftpd ::
  "string list \<Rightarrow> (string \<Rightarrow> conf_file) \<Rightarrow> (u16 \<Rightarrow> bool) \<Rightarrow> nat \<Rightarrow> crash + (factory_map \<times> config \<times> 'w server) option"
where
  "main_ftpd argv open_conf bind_ok hardware_concurrency =
     (if length argv < 2 then Inr None
      else
        let m = regist_all_operation
        in sbind (init (open_conf (argv ! 1)) global_config) (\<lambda>c.
           sbind (new_server (bind_ok (port c)) hardware_concurrency 0) (\<lambda>s.
           sbind (server_start s) (\<lambda>s. Inr (Some (m, c, s))))))"

subsection \<open>The server as a state machine\<close>

inductive server_step :: "'w server \<Rightarrow> 'w server \<Rightarrow> bool" where
  client: "on_client c accepted remote home n0 w s = Inr t \<Longrightarrow> server_step s t"
| leave: "gone s < length (assigned s) \<Longrightarrow> server_step s (session_gone s)"

inductive_cases server_stepE: "server_step s t"

definition serving :: "nat \<Rightarrow> 'w server \<Rightarrow> bool" where
  "serving hw s \<longleftrightarrow> (\<exists>s0. new_server True hw 0 = Inr s0 \<and> do_accept s0 = Inr s)"

subsection \<open>Round robin\<close>

text \<open>
  \<open>accepts s\<close> counts the accepts started: one more than the connections, successful or
  not, that have come in.
\<close>

definition server_inv :: "nat \<Rightarrow> 'w server \<Rightarrow> bool" where
  "server_inv hw s \<longleftrightarrow>
     works s = hw \<and> 0 < hw \<and> \<not> srv_stoped s \<and>
     accepting s = Some (unat (work_index s - 1) mod hw) \<and>
     (\<forall>(wk, x) \<in> set (assigned s). wk < hw) \<and>
     client_count s = of_nat (length (assigned s)) - of_nat (gone s) \<and> gone s \<le> length (assigned s)"

lemma serving_inv: "serving hw s \<Longrightarrow> server_inv hw s"
  by (auto simp: serving_def new_server_def do_accept_def server_inv_def split: if_splits)

lemma on_client_inv:
  assumes "server_inv hw s" and "on_client c accepted remote home n0 w s = Inr t"
  shows "server_inv hw t"
  using assms
  by (auto simp: on_client_def server_inv_def do_accept_def new_session_def inc_client_num_def sbind_Inr_iff Let_def
      split: if_splits)

lemma session_gone_inv: "server_inv hw s \<Longrightarrow> gone s < length (assigned s) \<Longrightarrow> server_inv hw (session_gone s)"
  by (auto simp: server_inv_def session_gone_def dec_client_num_def)

interpretation servers: machine_invariant "serving hw" server_step "server_inv hw"
  by unfold_locales (auto intro: serving_inv on_client_inv session_gone_inv elim!: server_stepE)

text \<open>The workers of connections accepted one after the other.\<close>

fun accept_clients :: "(string \<times> path \<times> u32 \<times> 'w) list \<Rightarrow> config \<Rightarrow> 'w server \<Rightarrow> crash + 'w server" where
  "accept_clients [] c s = Inr s"
| "accept_clients ((peer, home, n0, w) # xs) c s =
     sbind (on_client c True (Inr peer) home n0 w s) (accept_clients xs c)"

lemma on_client_ok:
  assumes "server_inv hw s"
  shows "\<exists>t. on_client c True (Inr peer) home n0 w s = Inr t \<and> work_index t = work_index s + 1 \<and>
           map fst (assigned t) = map fst (assigned s) @ [unat (work_index s - 1) mod hw]"
  using assms by (auto simp: on_client_def server_inv_def do_accept_def new_session_def)

lemma round_robin_steps:
  "server_inv hw s \<Longrightarrow> unat (work_index s - 1) + length xs < 2 ^ 32 \<Longrightarrow>
   \<exists>t. accept_clients xs c s = Inr t \<and>
     map fst (assigned t) = map fst (assigned s) @ map (\<lambda>k. (unat (work_index s - 1) + k) mod hw) [0..<length xs]"
proof (induction xs c s rule: accept_clients.induct)
  case (2 peer home n0 w xs c s)
  obtain t where t: "on_client c True (Inr peer) home n0 w s = Inr t" "work_index t = work_index s + 1"
    "map fst (assigned t) = map fst (assigned s) @ [unat (work_index s - 1) mod hw]"
    using on_client_ok [OF 2(2)] by blast
  have i: "server_inv hw t" by (rule on_client_inv [OF 2(2) t(1)])
  have u: "unat (work_index t - 1) = Suc (unat (work_index s - 1))"
  proof -
    have "unat (work_index s - 1) + 1 < 2 ^ LENGTH(32)" using 2(3) by simp
    then have "unat (work_index s - 1 + 1) = unat (work_index s - 1) + unat (1 :: u32)"
      by (intro unat_add_lem [THEN iffD1]) simp
    then show ?thesis by (simp add: t(2))
  qed
  have "map (\<lambda>k. (unat (work_index s - 1) + k) mod hw) [0..<Suc (length xs)] =
      unat (work_index s - 1) mod hw # map (\<lambda>k. (Suc (unat (work_index s - 1)) + k) mod hw) [0..<length xs]"
    by (simp add: upt_conv_Cons map_Suc_upt [symmetric] del: upt_Suc)
  moreover have "unat (work_index t - 1) + length xs < 2 ^ 32" using 2(3) u by simp
  then obtain v where "accept_clients xs c t = Inr v"
    "map fst (assigned v) = map fst (assigned t) @ map (\<lambda>k. (unat (work_index t - 1) + k) mod hw) [0..<length xs]"
    using 2(1) [OF t(1) i] by blast
  ultimately show ?case using t u by simp
qed simp

end
