(* ===== verification/Ownership.thy ===== *)
theory Ownership
  imports Session_Loop
begin

text \<open>
  What every operation keeps of the operators, the references to them and their count:
  the effect of a control operation in one relation, the ownership invariant and its
  preservation by each primitive and by each handler.
\<close>

subsection \<open>The effect of a control operation\<close>

text \<open>
  \<open>quiet s t\<close>: \<open>t\<close> differs from \<open>s\<close> at most in the fields that control operations set.
\<close>

definition quiet :: "'w sess \<Rightarrow> 'w sess \<Rightarrow> bool" where
  "quiet s t \<longleftrightarrow>
     stoped t = stoped s \<and> timer_expiry t = timer_expiry s \<and> keep_cancelled t = keep_cancelled s \<and>
     buf t = buf s \<and> message_queue t = message_queue s \<and> active_op_num t = active_op_num s \<and>
     data_socket t = data_socket s \<and> operators t = operators s \<and> next_op t = next_op s \<and>
     pending t = pending s \<and> destroyed t = destroyed s \<and> submitted t = submitted s \<and>
     sent t = sent s \<and> dropped t = dropped s \<and> listings t = listings s \<and> open_fds t = open_fds s"

definition control_effect :: "'w sess \<Rightarrow> 'w sess \<Rightarrow> bool" where
  "control_effect s t \<longleftrightarrow> (\<exists>s1. quiet s s1 \<and> (t = s1 \<or> (\<exists>b. t = enqueue b NoToken s1)))"

lemma control_effect_replyI: "quiet s s1 \<Longrightarrow> control_effect s (enqueue b NoToken s1)"
  by (auto simp: control_effect_def)

lemma control_effect_quietI: "quiet s t \<Longrightarrow> control_effect s t"
  by (auto simp: control_effect_def)

lemmas effect_simps = reply_eq sbind_Inr_iff Let_def

lemma validate_effect:
  assumes "validate e s = Inr (v, t)"
  shows "if v then quiet s t else \<exists>b s1. quiet s s1 \<and> t = enqueue b NoToken s1"
proof (cases "user s = []")
  case True
  let ?b = "get_code_string_info invalid_seq ''Login with USER first.''"
  have "t = enqueue ?b NoToken (s\<lparr>password := []\<rparr>)" and "\<not> v"
    using assms True by (auto simp: validate_def effect_simps enqueue_def)
  moreover have "quiet s (s\<lparr>password := []\<rparr>)" by (simp add: quiet_def)
  ultimately show ?thesis by auto
next
  case False
  with assms show ?thesis by (auto simp: validate_def quiet_def split: if_splits)
qed

lemma quiet_trans: "quiet s t \<Longrightarrow> quiet t u \<Longrightarrow> quiet s u"
  by (simp add: quiet_def)

lemma auth_op_effect: "auth_op e s = Inr t \<Longrightarrow> control_effect s t"
proof -
  assume a: "auth_op e s = Inr t"
  have q: "quiet s (s\<lparr>user := u\<rparr>)" "quiet s (s\<lparr>password := u\<rparr>)" "quiet s s" for u
    by (simp_all add: quiet_def)
  consider "command (request s) = ''USER''" | "command (request s) = ''PASS''"
    | "command (request s) \<noteq> ''USER''" "command (request s) \<noteq> ''PASS''" by blast
  then show ?thesis
  proof cases
    case 2
    with a obtain v u where v: "validate e (s\<lparr>password := body (request s)\<rparr>) = Inr (v, u)"
      and t: "(if v then reply e (get_code_string logged_on) u else Inr u) = Inr t"
      by (auto simp: auth_op_def sbind_Inr_iff)
    from validate_effect [OF v] t q(2) show ?thesis
      by (cases v) (auto simp: reply_eq intro: control_effect_replyI quiet_trans)
  qed (use a q in \<open>auto simp: auth_op_def effect_simps intro!: control_effect_replyI\<close>)
qed

lemma property_op_effect: "property_op e s = Inr t \<Longrightarrow> control_effect s t"
  by (auto simp: property_op_def effect_simps quiet_def split: if_splits
        intro!: control_effect_replyI intro: control_effect_quietI)

lemma change_to_effect: "change_to e p s = Inr t \<Longrightarrow> control_effect s t"
  by (auto simp: change_to_def effect_simps quiet_def split: if_splits
        intro!: control_effect_replyI)

lemma simple_effects:
  "ack_op e s = Inr t \<Longrightarrow> control_effect s t"
  "syst_op e s = Inr t \<Longrightarrow> control_effect s t"
  "print_working_dir_op e s = Inr t \<Longrightarrow> control_effect s t"
  "stat_op e s = Inr t \<Longrightarrow> control_effect s t"
  "size_op e s = Inr t \<Longrightarrow> control_effect s t"
  by (auto simp: ack_op_def syst_op_def print_working_dir_op_def stat_op_def size_op_def
        effect_simps quiet_def split: if_splits intro!: control_effect_replyI)

lemma directory_effects:
  "change_working_dir_op e s = Inr t \<Longrightarrow> control_effect s t"
  "cd_to_parent_op e s = Inr t \<Longrightarrow> control_effect s t"
  by (auto simp: change_working_dir_op_def cd_to_parent_op_def effect_simps quiet_def
        split: if_splits intro!: control_effect_replyI dest: change_to_effect)

lemma create_dir_effect: "create_dir_op e s = Inr t \<Longrightarrow> control_effect s t"
  by (auto simp: create_dir_op_def effect_simps quiet_def
        split: if_splits intro!: control_effect_replyI)

lemma passive_mode_effect: "passive_mode_op e s = Inr t \<Longrightarrow> control_effect s t"
  by (auto simp: passive_mode_op_def effect_simps quiet_def
        split: if_splits intro!: control_effect_replyI)

lemmas control_effects =
  simple_effects directory_effects create_dir_effect passive_mode_effect property_op_effect
  auth_op_effect

text \<open>The effect of \<^verbatim>\<open>do_operation\<close> of every class that starts no transfer.\<close>

lemma do_operation_plain:
  assumes "lookup_op i s = Some (Plain c)" and "c \<noteq> ListOp" and "do_operation e i s = Inr t"
  shows "control_effect s t"
  using assms
  by (cases c) (auto simp: do_operation_def dest: control_effects)

subsection \<open>The effect of an accept on the operators\<close>

text \<open>
  What a handler or a token that refers to an operator relies on: the operator is alive,
  of the class that made the reference, and a transfer has its file open.
\<close>

definition sending_ok :: "operator option \<Rightarrow> bool" where
  "sending_ok x \<longleftrightarrow> (\<exists>f. x = Some (Sending f) \<and> 0 < sf_fd f \<and> sf_token f)"

definition receiving_ok :: "operator option \<Rightarrow> bool" where
  "receiving_ok x \<longleftrightarrow> (\<exists>f. x = Some (Receiving f) \<and> 0 < rf_fd f \<and> rf_token f)"

definition listing_ok :: "operator option \<Rightarrow> bool" where
  "listing_ok x \<longleftrightarrow> x = Some (Plain ListOp)"

fun handler_fits :: "(opid \<Rightarrow> operator option) \<Rightarrow> handler \<Rightarrow> bool" where
  "handler_fits m (OnAccept i) = (sending_ok (m i) \<or> receiving_ok (m i) \<or> listing_ok (m i))"
| "handler_fits m (OnSendReady i) = sending_ok (m i)"
| "handler_fits m (OnLimiter i) = sending_ok (m i)"
| "handler_fits m (OnRecvReady i) = receiving_ok (m i)"
| "handler_fits m (OnListWritten i r) = listing_ok (m i)"
| "handler_fits m _ = True"

fun token_fits :: "(opid \<Rightarrow> operator option) \<Rightarrow> token \<Rightarrow> bool" where
  "token_fits m NoToken = True"
| "token_fits m (SendToken i) = sending_ok (m i)"
| "token_fits m (RecvToken i) = receiving_ok (m i)"
| "token_fits m (ListToken i r) = listing_ok (m i)"

lemma handler_fits_local:
  "handler_fits m h \<Longrightarrow> (\<And>i. handler_ref h = Some i \<Longrightarrow> m' i = m i) \<Longrightarrow> handler_fits m' h"
  by (cases h) auto

lemma token_fits_local:
  "token_fits m t \<Longrightarrow> (\<And>i. token_ref t = Some i \<Longrightarrow> m' i = m i) \<Longrightarrow> token_fits m' t"
  by (cases t) auto

lemma handler_fits_alive: "handler_fits m h \<Longrightarrow> handler_ref h = Some i \<Longrightarrow> m i \<noteq> None"
  by (cases h) (auto simp: sending_ok_def receiving_ok_def listing_ok_def)

lemma token_fits_alive: "token_fits m t \<Longrightarrow> token_ref t = Some i \<Longrightarrow> m i \<noteq> None"
  by (cases t) (auto simp: sending_ok_def receiving_ok_def listing_ok_def)

subsection \<open>The ownership invariant\<close>

text \<open>
  The operator count is the number of live operators above its first value; the numbers of
  the operators are distinct and were given out; every reference fits.
\<close>

definition op_inv :: "u32 \<Rightarrow> 'w sess \<Rightarrow> bool" where
  "op_inv n0 s \<longleftrightarrow>
     active_op_num s = n0 + of_nat (length (operators s)) \<and>
     distinct (map fst (operators s)) \<and> (\<forall>i \<in> fst ` set (operators s). i < next_op s) \<and>
     (\<forall>h \<in> set (pending s). handler_fits (map_of (operators s)) h) \<and>
     (\<forall>m \<in> set (message_queue s). token_fits (map_of (operators s)) (snd m))"

lemma op_inv_cong:
  "active_op_num t = active_op_num s \<Longrightarrow> operators t = operators s \<Longrightarrow> next_op t = next_op s \<Longrightarrow>
   pending t = pending s \<Longrightarrow> message_queue t = message_queue s \<Longrightarrow> op_inv n0 t = op_inv n0 s"
  by (simp add: op_inv_def)

lemma op_inv_quiet: "quiet s t \<Longrightarrow> op_inv n0 t = op_inv n0 s"
  by (rule op_inv_cong) (simp_all add: quiet_def)

lemma op_inv_enqueue:
  "op_inv n0 s \<Longrightarrow> token_fits (map_of (operators s)) t \<Longrightarrow> op_inv n0 (enqueue b t s)"
  by (auto simp: op_inv_def enqueue_def)

lemma op_inv_control: "control_effect s t \<Longrightarrow> op_inv n0 s \<Longrightarrow> op_inv n0 t"
  by (auto simp: control_effect_def op_inv_quiet intro!: op_inv_enqueue)

lemma op_inv_add_pending:
  "op_inv n0 s \<Longrightarrow> handler_fits (map_of (operators s)) h \<Longrightarrow> op_inv n0 (add_pending h s)"
  by (auto simp: op_inv_def add_pending_def)

lemma op_inv_forget:
  "op_inv n0 s \<Longrightarrow> set hs \<subseteq> set (pending s) \<Longrightarrow> set ms \<subseteq> set (message_queue s) \<Longrightarrow>
   op_inv n0 (s\<lparr>pending := hs, message_queue := ms\<rparr>)"
  by (auto simp: op_inv_def)

lemma op_inv_lookup: "op_inv n0 s \<Longrightarrow> lookup_op i s = Some x \<Longrightarrow> i < next_op s"
  by (force simp: op_inv_def lookup_op_def dest: map_of_SomeD)

subsection \<open>Updating an operator\<close>

lemma map_of_update:
  "map_of (map (\<lambda>(j, x). if j = i then (j, obj) else (j, x)) xs) j =
     (if j = i \<and> map_of xs j \<noteq> None then Some obj else map_of xs j)"
  by (induction xs) auto

lemma map_fst_update: "map fst (map (\<lambda>(j, x). if j = i then (j, obj) else (j, x)) xs) = map fst xs"
  by (induction xs) auto

lemma lookup_update_op:
  "lookup_op j (update_op i obj s) = (if j = i \<and> lookup_op j s \<noteq> None then Some obj else lookup_op j s)"
  by (auto simp: lookup_op_def update_op_def map_of_update)

lemma update_op_frame [simp]:
  "map fst (operators (update_op i obj s)) = map fst (operators s)"
  "active_op_num (update_op i obj s) = active_op_num s" "pending (update_op i obj s) = pending s"
  "message_queue (update_op i obj s) = message_queue s" "next_op (update_op i obj s) = next_op s"
  "data_socket (update_op i obj s) = data_socket s" "acceptor (update_op i obj s) = acceptor s"
  "stoped (update_op i obj s) = stoped s" "timer_expiry (update_op i obj s) = timer_expiry s"
  "submitted (update_op i obj s) = submitted s" "sent (update_op i obj s) = sent s"
  "dropped (update_op i obj s) = dropped s" "open_fds (update_op i obj s) = open_fds s"
  "destroyed (update_op i obj s) = destroyed s" "current_path (update_op i obj s) = current_path s"
  "world (update_op i obj s) = world s" "keep_cancelled (update_op i obj s) = keep_cancelled s"
  "verified (update_op i obj s) = verified s" "user (update_op i obj s) = user s"
  "is_anonymous (update_op i obj s) = is_anonymous s" "listings (update_op i obj s) = listings s"
  "buf (update_op i obj s) = buf s" "request (update_op i obj s) = request s"
  by (simp_all add: update_op_def map_fst_update del: map_map)

text \<open>An update that keeps what references rely on.\<close>

definition fits_kept :: "operator option \<Rightarrow> operator option \<Rightarrow> bool" where
  "fits_kept x y \<longleftrightarrow> (sending_ok x \<longrightarrow> sending_ok y) \<and> (receiving_ok x \<longrightarrow> receiving_ok y) \<and>
                     (listing_ok x \<longrightarrow> listing_ok y)"

lemma fits_kept_refl [simp]: "fits_kept x x"
  by (simp add: fits_kept_def)

lemma fits_mono:
  assumes "\<And>i. fits_kept (m i) (m' i)"
  shows "handler_fits m h \<Longrightarrow> handler_fits m' h" and "token_fits m t \<Longrightarrow> token_fits m' t"
  using assms by (cases h; fastforce simp: fits_kept_def)
    (use assms in \<open>cases t; fastforce simp: fits_kept_def\<close>)

lemma op_inv_update_op:
  assumes "op_inv n0 s" and "fits_kept (lookup_op i s) (Some obj)"
  shows "op_inv n0 (update_op i obj s)"
proof -
  have m: "fits_kept (map_of (operators s) j) (map_of (operators (update_op i obj s)) j)" for j
    using assms(2) lookup_update_op [of j i obj s] by (auto simp: lookup_op_def)
  have l: "length (operators (update_op i obj s)) = length (operators s)"
    by (simp add: update_op_def)
  have f: "fst ` set (operators (update_op i obj s)) = fst ` set (operators s)"
    by (metis list.set_map update_op_frame(1))
  show ?thesis
    using assms(1) fits_mono [OF m] unfolding op_inv_def by (auto simp: l f)
qed

subsection \<open>Constructing an operator\<close>

definition ctor_effect :: "'w sess \<Rightarrow> 'w sess \<Rightarrow> bool" where
  "ctor_effect s t \<longleftrightarrow> (\<exists>fds. control_effect (s\<lparr>open_fds := fds\<rparr>) t)"

lemma quiet_refl [simp]: "quiet s s"
  by (simp add: quiet_def)

definition ctor_quiet :: "'w sess \<Rightarrow> 'w sess \<Rightarrow> bool" where
  "ctor_quiet s t \<longleftrightarrow> quiet (s\<lparr>open_fds := open_fds t\<rparr>) t"

lemma ctor_quiet_simps [simp]:
  "ctor_quiet s s" "ctor_quiet s (open_fd fd t) = ctor_quiet s t"
  "ctor_quiet s (t\<lparr>world := w\<rparr>) = ctor_quiet s t"
  by (auto simp: ctor_quiet_def quiet_def open_fd_def)

lemma ctor_effectI:
  "ctor_quiet s t \<Longrightarrow> ctor_effect s (enqueue b NoToken t)" "ctor_quiet s t \<Longrightarrow> ctor_effect s t"
  by (auto simp: ctor_quiet_def ctor_effect_def control_effect_def)

lemma send_file_ctor_effect: "sall (\<lambda>(f, t). ctor_effect s t) (send_file_ctor e s)"
  by (auto simp: send_file_ctor_def write_message_eq Let_def ctor_effectI intro!: sall_any)

lemma recv_file_ctor_effect: "sall (\<lambda>(f, t). ctor_effect s t) (recv_file_ctor e s)"
  by (auto simp: recv_file_ctor_def write_message_eq Let_def ctor_effectI intro!: sall_any
        split: option.splits prod.splits)

lemma op_inv_ctor:
  assumes "ctor_effect s t" and "op_inv n0 s" shows "op_inv n0 t"
proof -
  obtain fds where "control_effect (s\<lparr>open_fds := fds\<rparr>) t"
    using assms(1) by (auto simp: ctor_effect_def)
  moreover have "op_inv n0 (s\<lparr>open_fds := fds\<rparr>)"
    using assms(2) by (subst op_inv_cong [of _ s]) simp_all
  ultimately show ?thesis by (rule op_inv_control)
qed

lemma op_inv_new:
  assumes "op_inv n0 s" and "ctor_effect (basic_op_ctor (s\<lparr>next_op := Suc (next_op s)\<rparr>)) t"
  shows "op_inv n0 (t\<lparr>operators := operators t @ [(next_op s, obj)]\<rparr>)"
    and "lookup_op (next_op s) (t\<lparr>operators := operators t @ [(next_op s, obj)]\<rparr>) = Some obj"
    and "operators t = operators s"
proof -
  let ?i = "next_op s" and ?s0 = "basic_op_ctor (s\<lparr>next_op := Suc (next_op s)\<rparr>)"
  have eqs: "operators t = operators s" "next_op t = Suc ?i" "active_op_num t = active_op_num s + 1"
    "\<exists>ms. (\<forall>m \<in> set ms. snd m = NoToken) \<and> message_queue t = message_queue s @ ms"
    "\<exists>hs. set hs \<subseteq> {OnWrite} \<and> pending t = pending s @ hs"
    using assms(2) by (auto simp: ctor_effect_def control_effect_def quiet_def basic_op_ctor_def enqueue_def)
  have fresh: "map_of (operators s) ?i = None"
    using assms(1) by (auto simp: op_inv_def map_of_eq_None_iff)
  have m: "fits_kept (map_of (operators s) j) (map_of (operators s @ [(?i, obj)]) j)" for j
    using fresh by (auto simp: map_add_def fits_kept_def sending_ok_def receiving_ok_def listing_ok_def)
  show "lookup_op ?i (t\<lparr>operators := operators t @ [(?i, obj)]\<rparr>) = Some obj"
    using fresh by (simp add: lookup_op_def eqs map_add_def)
  show "operators t = operators s" by (rule eqs)
  from eqs(4,5) obtain ms hs where ms: "\<forall>m \<in> set ms. snd m = NoToken"
    "message_queue t = message_queue s @ ms" and hs: "set hs \<subseteq> {OnWrite}" "pending t = pending s @ hs"
    by blast
  have h: "\<forall>h \<in> set (pending t). handler_fits (map_of (operators s @ [(?i, obj)])) h"
    using assms(1) fits_mono(1) [OF m] hs by (auto simp: op_inv_def)
  have q: "\<forall>x \<in> set (message_queue t). token_fits (map_of (operators s @ [(?i, obj)])) (snd x)"
    using assms(1) fits_mono(2) [OF m] ms by (auto simp: op_inv_def)
  show "op_inv n0 (t\<lparr>operators := operators t @ [(?i, obj)]\<rparr>)"
    using assms(1) h q by (auto simp: op_inv_def eqs)
qed

lemma ctor_effect_refl: "ctor_effect s s"
  by (rule ctor_effectI) simp

lemma op_inv_construct:
  assumes "op_inv n0 s"
  shows "sall (\<lambda>(i, t). op_inv n0 t \<and> lookup_op i t \<noteq> None) (construct e c s)"
proof -
  let ?s0 = "basic_op_ctor (s\<lparr>next_op := Suc (next_op s)\<rparr>)"
  have "sall (\<lambda>(i, t). op_inv n0 t \<and> lookup_op i t \<noteq> None)
          (sbind (send_file_ctor e ?s0) (\<lambda>(f, t). Inr (next_op s, t\<lparr>operators := operators t @ [(next_op s, Sending f)]\<rparr>)))"
    using send_file_ctor_effect [of ?s0 e] op_inv_new [OF assms] by (auto elim!: sall_mono)
  moreover have "sall (\<lambda>(i, t). op_inv n0 t \<and> lookup_op i t \<noteq> None)
          (sbind (recv_file_ctor e ?s0) (\<lambda>(f, t). Inr (next_op s, t\<lparr>operators := operators t @ [(next_op s, Receiving f)]\<rparr>)))"
    using recv_file_ctor_effect [of ?s0 e] op_inv_new [OF assms] by (auto elim!: sall_mono)
  moreover have "op_inv n0 (?s0\<lparr>operators := operators ?s0 @ [(next_op s, x)]\<rparr>)"
    "lookup_op (next_op s) (?s0\<lparr>operators := operators ?s0 @ [(next_op s, x)]\<rparr>) \<noteq> None" for x
    using op_inv_new [OF assms ctor_effect_refl] by simp_all
  ultimately show ?thesis
    unfolding construct_def Let_def by (cases c) (simp_all del: sall_bind)
qed

subsection \<open>Destroying operators\<close>

lemma close_fd_frame [simp]:
  "operators (close_fd fd s) = operators s" "active_op_num (close_fd fd s) = active_op_num s"
  "pending (close_fd fd s) = pending s" "message_queue (close_fd fd s) = message_queue s"
  "data_socket (close_fd fd s) = data_socket s"
  by (simp_all add: close_fd_def)

text \<open>A destructor body closes descriptors and the data socket, and nothing else.\<close>

definition body_effect :: "'w sess \<Rightarrow> 'w sess \<Rightarrow> bool" where
  "body_effect s t \<longleftrightarrow> t = s\<lparr>open_fds := open_fds t, data_socket := data_socket t\<rparr> \<and>
     (data_socket t = data_socket s \<or> data_socket s = Some SockOpen \<and> data_socket t = Some SockClosed)"

lemma body_effect_intros:
  "body_effect s s" "body_effect s t \<Longrightarrow> body_effect s (close_fd fd t)"
  "body_effect s t \<Longrightarrow> body_effect s (close_data_socket t)"
  by (cases s; cases t; force simp: body_effect_def close_fd_def close_data_socket_def)+

lemma derived_dtor_effect: "body_effect s (derived_dtor obj s)"
  by (cases "(obj, s)" rule: derived_dtor.cases) (auto simp: Let_def intro!: body_effect_intros)

text \<open>The state after a destructor, up to descriptors, the data socket and the timer.\<close>

definition dtor_effect :: "'w env \<Rightarrow> opid \<Rightarrow> 'w sess \<Rightarrow> 'w sess \<Rightarrow> bool" where
  "dtor_effect e i s t \<longleftrightarrow>
     (\<exists>fds d x k. t = s\<lparr>open_fds := fds, data_socket := d,
        operators := filter (\<lambda>(j, x). j \<noteq> i) (operators s),
        active_op_num := active_op_num s - 1, timer_expiry := x, keep_cancelled := k\<rparr> \<and>
        (d = data_socket s \<or> data_socket s = Some SockOpen \<and> d = Some SockClosed) \<and>
        (keep_cancelled s \<longrightarrow> k) \<and>
        (if exists_pending_operator t then x = timer_expiry s \<and> k = keep_cancelled s
         else k \<and> x = (if stoped s then timer_expiry s
                         else At (now e + max_idle_timeout (cfg e) * 1000000000))))"

lemma destroy_op_effect: "lookup_op i s \<noteq> None \<Longrightarrow> dtor_effect e i s (destroy_op e i s)"
proof -
  assume "lookup_op i s \<noteq> None"
  then obtain obj where l: "lookup_op i s = Some obj" by blast
  from derived_dtor_effect [of s obj] obtain fds d where
    d: "derived_dtor obj s = s\<lparr>open_fds := fds, data_socket := d\<rparr>"
       "d = data_socket s \<or> data_socket s = Some SockOpen \<and> d = Some SockClosed"
    by (auto simp: body_effect_def)
  let ?t = "s\<lparr>open_fds := fds, data_socket := d,
        operators := filter (\<lambda>(j, x). j \<noteq> i) (operators s), active_op_num := active_op_num s - 1\<rparr>"
  have "destroy_op e i s = (if exists_pending_operator ?t then ?t
      else if stoped s then cancel_idle_timer ?t
      else update_idle_timer e (max_idle_timeout (cfg e)) ?t)"
    by (simp add: destroy_op_def l d(1) Let_def basic_op_dtor_def)
  then show ?thesis
    using d(2) unfolding dtor_effect_def
    by (intro exI [of _ fds] exI [of _ d] exI [of _ "timer_expiry (destroy_op e i s)"]
          exI [of _ "keep_cancelled (destroy_op e i s)"])
       (auto simp: update_idle_timer_def cancel_idle_timer_def exists_pending_operator_def)
qed

lemma destroy_op_dead: "lookup_op i s = None \<Longrightarrow> destroy_op e i s = s"
  by (simp add: destroy_op_def)

lemma lookup_None_filter: "lookup_op i s = None \<Longrightarrow> filter (\<lambda>(j, x). j \<noteq> i) (operators s) = operators s"
  by (auto simp: lookup_op_def map_of_eq_None_iff image_iff intro!: filter_True)

lemma destroy_op_operators:
  "operators (destroy_op e i s) = filter (\<lambda>(j, x). j \<noteq> i) (operators s)"
  using destroy_op_effect [of i s e] destroy_op_dead [of i s e] lookup_None_filter [of i s]
  by (cases "lookup_op i s = None") (auto simp: dtor_effect_def)

lemma destroy_op_frame [simp]:
  "pending (destroy_op e i s) = pending s" "message_queue (destroy_op e i s) = message_queue s"
  "next_op (destroy_op e i s) = next_op s" "stoped (destroy_op e i s) = stoped s"
  "submitted (destroy_op e i s) = submitted s" "sent (destroy_op e i s) = sent s"
  "dropped (destroy_op e i s) = dropped s" "destroyed (destroy_op e i s) = destroyed s"
  "acceptor (destroy_op e i s) = acceptor s" "verified (destroy_op e i s) = verified s"
  "user (destroy_op e i s) = user s" "is_anonymous (destroy_op e i s) = is_anonymous s"
  "current_path (destroy_op e i s) = current_path s" "world (destroy_op e i s) = world s"
  "listings (destroy_op e i s) = listings s" "buf (destroy_op e i s) = buf s"
  "request (destroy_op e i s) = request s" "transport (destroy_op e i s) = transport s"
  using destroy_op_effect [of i s e] destroy_op_dead [of i s e]
  by (cases "lookup_op i s = None"; force simp: dtor_effect_def)+

lemma length_filter_key:
  "distinct (map fst xs) \<Longrightarrow> map_of xs i \<noteq> None \<Longrightarrow>
   Suc (length (filter (\<lambda>(j, x). j \<noteq> i) xs)) = length xs"
proof (induction xs)
  case (Cons x xs)
  show ?case
  proof (cases "fst x = i")
    case True
    from Cons.prems(1) have "fst x \<notin> fst ` set xs" by simp
    with True have "\<forall>y \<in> set xs. fst y \<noteq> i" by (metis image_eqI)
    then have "filter (\<lambda>(j, x). j \<noteq> i) xs = xs" by (intro filter_True) auto
    with True show ?thesis by (cases x) auto
  next
    case False
    with Cons show ?thesis by (cases x) auto
  qed
qed simp

lemma map_of_filter_key: "map_of (filter (\<lambda>(j, x). j \<noteq> i) xs) j = (if j = i then None else map_of xs j)"
  by (induction xs) auto

lemma referenced_cong:
  "pending t = pending s \<Longrightarrow> message_queue t = message_queue s \<Longrightarrow> referenced i t = referenced i s"
  by (simp add: referenced_def)

lemma op_inv_destroy:
  assumes "op_inv n0 s" and "\<not> referenced i s"
  shows "op_inv n0 (destroy_op e i s)"
proof (cases "lookup_op i s = None")
  case True
  with assms show ?thesis by (simp add: destroy_op_dead)
next
  case False
  let ?t = "destroy_op e i s" and ?m = "map_of (operators s)"
  have ops: "operators ?t = filter (\<lambda>(j, x). j \<noteq> i) (operators s)" by (rule destroy_op_operators)
  have act: "active_op_num ?t = active_op_num s - 1"
    using destroy_op_effect [OF False, of e] by (auto simp: dtor_effect_def)
  have len: "Suc (length (operators ?t)) = length (operators s)"
    using assms(1) False by (simp add: ops op_inv_def lookup_op_def length_filter_key)
  have same: "j \<noteq> i \<Longrightarrow> map_of (operators ?t) j = ?m j" for j
    by (simp add: ops map_of_filter_key)
  have "\<forall>h \<in> set (pending s). handler_fits (map_of (operators ?t)) h"
  proof
    fix h assume h: "h \<in> set (pending s)"
    with assms(2) have "\<And>j. handler_ref h = Some j \<Longrightarrow> j \<noteq> i" by (auto simp: referenced_def)
    moreover have "handler_fits ?m h" using assms(1) h by (simp add: op_inv_def)
    ultimately show "handler_fits (map_of (operators ?t)) h"
      by (auto intro: handler_fits_local simp: same)
  qed
  moreover have "\<forall>m \<in> set (message_queue s). token_fits (map_of (operators ?t)) (snd m)"
  proof
    fix m assume m: "m \<in> set (message_queue s)"
    with assms(2) have "\<And>j. token_ref (snd m) = Some j \<Longrightarrow> j \<noteq> i" by (auto simp: referenced_def)
    moreover have "token_fits ?m (snd m)" using assms(1) m by (simp add: op_inv_def)
    ultimately show "token_fits (map_of (operators ?t)) (snd m)"
      by (auto intro: token_fits_local simp: same)
  qed
  moreover have "active_op_num ?t = n0 + of_nat (length (operators ?t))"
    using assms(1) len [symmetric] by (simp add: act op_inv_def)
  moreover have "distinct (map fst (operators ?t))"
    using assms(1) by (simp add: ops op_inv_def distinct_map_filter)
  moreover have "\<forall>j \<in> fst ` set (operators ?t). j < next_op s"
    using assms(1) by (auto simp: ops op_inv_def)
  ultimately show ?thesis by (simp add: op_inv_def)
qed

subsection \<open>Releasing\<close>

lemma fold_destroy_operators:
  "operators (fold (destroy_op e) is s) = filter (\<lambda>(j, x). j \<notin> set is) (operators s)"
  by (induction "is" arbitrary: s) (auto simp: destroy_op_operators intro!: filter_cong)

lemma fold_destroy_keeps:
  assumes "\<And>i s. f (destroy_op e i s) = f s"
  shows "f (fold (destroy_op e) is s) = f s"
  using assms by (induction "is" arbitrary: s) auto

lemma release_frame [simp]:
  "pending (release e s) = pending s" "message_queue (release e s) = message_queue s"
  "next_op (release e s) = next_op s" "stoped (release e s) = stoped s"
  "submitted (release e s) = submitted s" "sent (release e s) = sent s"
  "dropped (release e s) = dropped s" "destroyed (release e s) = destroyed s"
  "acceptor (release e s) = acceptor s" "verified (release e s) = verified s"
  "user (release e s) = user s" "is_anonymous (release e s) = is_anonymous s"
  "current_path (release e s) = current_path s" "world (release e s) = world s"
  "listings (release e s) = listings s" "buf (release e s) = buf s"
  "request (release e s) = request s" "transport (release e s) = transport s"
  unfolding release_def by (rule fold_destroy_keeps; simp)+

text \<open>After a release exactly the referenced operators are alive.\<close>

lemma release_operators:
  "operators (release e s) = filter (\<lambda>(j, x). referenced j s) (operators s)"
  by (auto simp: release_def fold_destroy_operators unreferenced_def image_iff intro!: filter_cong)

lemma op_inv_release: "op_inv n0 s \<Longrightarrow> op_inv n0 (release e s)"
proof -
  have "op_inv n0 (fold (destroy_op e) is s)"
    if "op_inv n0 s" "\<forall>i \<in> set is. \<not> referenced i s" for "is" s
    using that
  proof (induction "is" arbitrary: s)
    case (Cons i "is")
    then show ?case
      using op_inv_destroy [of n0 s i e] referenced_cong [of "destroy_op e i s" s] by simp
  qed simp
  moreover assume "op_inv n0 s"
  ultimately show ?thesis by (simp add: release_def unreferenced_def)
qed

end
