(* ===== verification/Handlers.thy ===== *)
theory Handlers
  imports Ownership
begin

text \<open>
  What a whole handler does to the pending operations and the message queue. \<open>extends\<close>
  summarises every operation and every transfer handler; the ownership invariant is carried
  through all handlers and holds in every reachable state.
\<close>

subsection \<open>Growth of the queue and of the pending operations\<close>

text \<open>
  \<open>extends s t\<close>: messages and handlers were appended, a control write was started exactly
  when the queue was empty before and is not any more, and every other new handler belongs
  to an operator; the timer and the session's own fields are as before.
\<close>

definition session_handlers :: "handler list \<Rightarrow> handler list" where
  "session_handlers hs = filter (\<lambda>h. handler_ref h = None) hs"

lemma session_handlers_simps [simp]:
  "session_handlers [] = []"
  "session_handlers (h # hs) = (if handler_ref h = None then h # session_handlers hs else session_handlers hs)"
  "session_handlers (hs @ hs') = session_handlers hs @ session_handlers hs'"
  by (simp_all add: session_handlers_def)

definition extends :: "'w sess \<Rightarrow> 'w sess \<Rightarrow> bool" where
  "extends s t \<longleftrightarrow>
     (\<exists>ms hs. message_queue t = message_queue s @ ms \<and> submitted t = submitted s @ map fst ms \<and>
        pending t = pending s @ hs \<and>
        session_handlers hs = (if message_queue s = [] \<and> ms \<noteq> [] then [OnWrite] else [])) \<and>
     stoped t = stoped s \<and> timer_expiry t = timer_expiry s \<and> keep_cancelled t = keep_cancelled s \<and>
     buf t = buf s \<and> sent t = sent s \<and> dropped t = dropped s \<and> destroyed t = destroyed s"

lemma extends_refl [simp]: "extends s s"
  by (simp add: extends_def)

lemma extends_trans: "extends s t \<Longrightarrow> extends t u \<Longrightarrow> extends s u"
  unfolding extends_def
  by (elim conjE exE, intro conjI, rename_tac ms ms' hs hs',
      rule_tac x = "ms @ ms'" in exI, rule_tac x = "hs @ hs'" in exI) (auto split: if_splits)

lemma extends_enqueue: "extends s (enqueue b t s)"
  by (auto simp: extends_def enqueue_def intro!: exI [of _ "[(b, t)]"])

lemma extends_pending: "handler_ref h \<noteq> None \<Longrightarrow> extends s (add_pending h s)"
  by (auto simp: extends_def add_pending_def)

lemma extends_update [simp]: "extends s (update_op i obj s)"
  by (simp add: extends_def)

lemma extends_same:
  "message_queue t = message_queue s \<Longrightarrow> submitted t = submitted s \<Longrightarrow> pending t = pending s \<Longrightarrow>
   stoped t = stoped s \<Longrightarrow> timer_expiry t = timer_expiry s \<Longrightarrow> keep_cancelled t = keep_cancelled s \<Longrightarrow>
   buf t = buf s \<Longrightarrow> sent t = sent s \<Longrightarrow> dropped t = dropped s \<Longrightarrow> destroyed t = destroyed s \<Longrightarrow>
   extends s t"
  by (simp add: extends_def)

lemma extends_quiet: "quiet s t \<Longrightarrow> extends s t"
  by (rule extends_same) (simp_all add: quiet_def)

lemma extends_control: "control_effect s t \<Longrightarrow> extends s t"
  by (auto simp: control_effect_def intro: extends_quiet extends_trans extends_enqueue)

lemma extends_ctor: "ctor_effect s t \<Longrightarrow> extends s t"
proof -
  assume "ctor_effect s t"
  then obtain fds where c: "control_effect (s\<lparr>open_fds := fds\<rparr>) t" by (auto simp: ctor_effect_def)
  have "extends s (s\<lparr>open_fds := fds\<rparr>)" by (rule extends_same) simp_all
  with extends_control [OF c] show ?thesis by (blast intro: extends_trans)
qed

text \<open>The two facts carried through a handler together.\<close>

definition grows :: "u32 \<Rightarrow> 'w sess \<Rightarrow> 'w sess \<Rightarrow> bool" where
  "grows n0 s t \<longleftrightarrow> extends s t \<and> op_inv n0 t \<and> next_op s \<le> next_op t \<and>
     fst ` set (operators s) \<subseteq> fst ` set (operators t)"

lemma grows_refl: "op_inv n0 s \<Longrightarrow> grows n0 s s"
  by (simp add: grows_def)

lemma grows_trans: "grows n0 s t \<Longrightarrow> grows n0 t u \<Longrightarrow> grows n0 s u"
  by (auto simp: grows_def intro: extends_trans)

text \<open>Sequencing: what the rest does from an intermediate state, it does from the first.\<close>

lemma grows_then: "grows n0 s u \<Longrightarrow> (op_inv n0 u \<Longrightarrow> sall (grows n0 u) m) \<Longrightarrow> sall (grows n0 s) m"
  by (rule sall_mono [of "grows n0 u"]) (auto simp: grows_def intro: extends_trans)

lemma grows_enqueue:
  "op_inv n0 s \<Longrightarrow> token_fits (map_of (operators s)) t \<Longrightarrow> grows n0 s (enqueue b t s)"
  by (simp add: grows_def extends_enqueue op_inv_enqueue)

lemma grows_pending:
  "op_inv n0 s \<Longrightarrow> handler_fits (map_of (operators s)) h \<Longrightarrow> handler_ref h \<noteq> None \<Longrightarrow>
   grows n0 s (add_pending h s)"
  by (simp add: grows_def extends_pending op_inv_add_pending) (simp add: add_pending_def)

lemma update_op_ids [simp]: "fst ` set (operators (update_op i obj s)) = fst ` set (operators s)"
  by (metis list.set_map update_op_frame(1))

lemma grows_update:
  "op_inv n0 s \<Longrightarrow> fits_kept (lookup_op i s) (Some obj) \<Longrightarrow> grows n0 s (update_op i obj s)"
  by (simp add: grows_def op_inv_update_op)

lemma control_effect_frame:
  "control_effect s t \<Longrightarrow> operators t = operators s" "control_effect s t \<Longrightarrow> next_op t = next_op s"
  by (auto simp: control_effect_def quiet_def)

lemma grows_control: "op_inv n0 s \<Longrightarrow> control_effect s t \<Longrightarrow> grows n0 s t"
  by (simp add: grows_def extends_control op_inv_control control_effect_frame)

lemma grows_same:
  "op_inv n0 s \<Longrightarrow> extends s t \<Longrightarrow> active_op_num t = active_op_num s \<Longrightarrow> operators t = operators s \<Longrightarrow>
   next_op t = next_op s \<Longrightarrow> pending t = pending s \<Longrightarrow> message_queue t = message_queue s \<Longrightarrow> grows n0 s t"
  by (simp add: grows_def op_inv_def)

subsection \<open>Operations\<close>

lemma fetch_grows:
  "op_inv n0 s \<Longrightarrow> handler_fits (map_of (operators s)) (OnAccept i) \<Longrightarrow>
   sall (grows n0 s) (fetch_passive_connection e i s)"
  by (auto simp: fetch_passive_connection_def check_data_port_def write_message_eq
        intro!: grows_pending grows_enqueue)

lemma send_file_op_grows:
  assumes "op_inv n0 s" and "lookup_op i s = Some (Sending f)"
  shows "sall (grows n0 s) (send_file_op e i f s)"
proof (cases "0 < sf_fd f")
  case True
  let ?s1 = "update_op i (Sending (f\<lparr>sf_token := True\<rparr>)) s"
  have g: "grows n0 s ?s1"
    using assms by (intro grows_update) (auto simp: fits_kept_def sending_ok_def receiving_ok_def listing_ok_def)
  have "lookup_op i ?s1 = Some (Sending (f\<lparr>sf_token := True\<rparr>))"
    using assms(2) by (simp add: lookup_update_op)
  then have "handler_fits (map_of (operators ?s1)) (OnAccept i)"
    using True by (simp add: lookup_op_def sending_ok_def)
  with g have "sall (grows n0 ?s1) (fetch_passive_connection e i ?s1)"
    by (intro fetch_grows) (auto simp: grows_def)
  with True g show ?thesis by (auto simp: send_file_op_def intro: grows_trans elim: sall_mono)
qed (use assms in \<open>simp add: send_file_op_def grows_refl\<close>)

lemma recv_file_op_grows:
  assumes "op_inv n0 s" and "lookup_op i s = Some (Receiving f)"
  shows "sall (grows n0 s) (recv_file_op e i f s)"
proof (cases "0 < rf_fd f")
  case True
  let ?s1 = "update_op i (Receiving (f\<lparr>rf_token := True\<rparr>)) s"
  have g: "grows n0 s ?s1"
    using assms by (intro grows_update) (auto simp: fits_kept_def sending_ok_def receiving_ok_def listing_ok_def)
  have "lookup_op i ?s1 = Some (Receiving (f\<lparr>rf_token := True\<rparr>))"
    using assms(2) by (simp add: lookup_update_op)
  then have "handler_fits (map_of (operators ?s1)) (OnAccept i)"
    using True by (simp add: lookup_op_def receiving_ok_def)
  with g have "sall (grows n0 ?s1) (fetch_passive_connection e i ?s1)"
    by (intro fetch_grows) (auto simp: grows_def)
  with True g show ?thesis by (auto simp: recv_file_op_def intro: grows_trans elim: sall_mono)
qed (use assms in \<open>simp add: recv_file_op_def grows_refl\<close>)

lemma do_operation_grows:
  assumes "op_inv n0 s"
  shows "sall (grows n0 s) (do_operation e i s)"
proof (cases "lookup_op i s")
  case None
  then show ?thesis by (simp add: do_operation_def)
next
  case (Some obj)
  show ?thesis
  proof (cases obj)
    case (Plain c)
    show ?thesis
    proof (cases "c = ListOp")
      case True
      with Some Plain assms show ?thesis
        by (auto simp: do_operation_def list_op_def lookup_op_def listing_ok_def intro!: fetch_grows)
    next
      case False
      show ?thesis
        using assms do_operation_plain [of i s c e] Some Plain False
        by (intro sallI grows_control) auto
    qed
  qed (use Some assms send_file_op_grows recv_file_op_grows in \<open>simp_all add: do_operation_def\<close>)
qed

lemma construct_grows:
  assumes "op_inv n0 s"
  shows "sall (\<lambda>(i, t). grows n0 s t \<and> operators t \<noteq> []) (construct e c s)"
proof -
  let ?s0 = "basic_op_ctor (s\<lparr>next_op := Suc (next_op s)\<rparr>)"
  have x0: "extends s ?s0" by (rule extends_same) (simp_all add: basic_op_ctor_def)
  have new: "grows n0 s (t\<lparr>operators := operators t @ [(next_op s, obj)]\<rparr>)"
    if "ctor_effect ?s0 t" for t obj
  proof -
    have "extends t (t\<lparr>operators := operators t @ [(next_op s, obj)]\<rparr>)" by (rule extends_same) simp_all
    moreover have "next_op t = Suc (next_op s)" "operators t = operators s"
      using that by (auto simp: ctor_effect_def control_effect_def quiet_def basic_op_ctor_def)
    ultimately show ?thesis
      using op_inv_new(1) [OF assms that] x0 extends_ctor [OF that]
      by (auto simp: grows_def intro: extends_trans)
  qed
  have "sall (\<lambda>(i, t). grows n0 s t \<and> operators t \<noteq> []) (sbind (send_file_ctor e ?s0)
          (\<lambda>(f, t). Inr (next_op s, t\<lparr>operators := operators t @ [(next_op s, Sending f)]\<rparr>)))"
    using send_file_ctor_effect [of ?s0 e] new by (auto elim!: sall_mono)
  moreover have "sall (\<lambda>(i, t). grows n0 s t \<and> operators t \<noteq> []) (sbind (recv_file_ctor e ?s0)
          (\<lambda>(f, t). Inr (next_op s, t\<lparr>operators := operators t @ [(next_op s, Receiving f)]\<rparr>)))"
    using recv_file_ctor_effect [of ?s0 e] new by (auto elim!: sall_mono)
  moreover have "grows n0 s (?s0\<lparr>operators := operators ?s0 @ [(next_op s, x)]\<rparr>)" for x
    using new [OF ctor_effect_refl] .
  ultimately show ?thesis
    unfolding construct_def Let_def by (cases c) (simp_all del: sall_bind)
qed

subsection \<open>Handlers of operators\<close>

lemma on_accept_grows:
  assumes inv: "op_inv n0 s" and fits: "handler_fits (map_of (operators s)) (OnAccept i)"
  shows "sall (grows n0 s) (on_accept e i s)"
proof -
  let ?s1 = "s\<lparr>acceptor := AccClosed\<rparr>" and ?s2 = "set_data_socket (s\<lparr>acceptor := AccClosed\<rparr>)"
  have g1: "grows n0 s ?s1" and g2: "grows n0 s ?s2"
    using inv by (auto intro!: grows_same extends_same simp: set_data_socket_def)
  have ops: "operators ?s2 = operators s" by (simp add: set_data_socket_def)
  have w: "token_fits (map_of (operators s)) t \<Longrightarrow> grows n0 s (enqueue b t ?s2)" for b t
    using g2 grows_enqueue [of n0 ?s2 t b] by (auto simp: ops grows_def intro: grows_trans extends_trans)
  have body: "sall (grows n0 s) (case lookup_op i ?s2 of
                   Some (Sending f) \<Rightarrow> send_connected e i ?s2
                 | Some (Receiving f) \<Rightarrow> recv_connected e i ?s2
                 | Some (Plain c) \<Rightarrow> handle_data_connection e i ?s2
                 | None \<Rightarrow> Inl UseAfterFree)"
  proof -
    have cases: "lookup_op i s = lookup_op i ?s2" by (simp add: lookup_op_def ops)
    consider f where "lookup_op i ?s2 = Some (Sending f)" "sending_ok (map_of (operators s) i)"
      | f where "lookup_op i ?s2 = Some (Receiving f)" "receiving_ok (map_of (operators s) i)"
      | "lookup_op i ?s2 = Some (Plain ListOp)" "listing_ok (map_of (operators s) i)"
      using fits cases
      by (auto simp: lookup_op_def sending_ok_def receiving_ok_def listing_ok_def)
    then show ?thesis
    proof cases
      case 3
      with w have l: "grows n0 s (enqueue b (ListToken i x) ?s2)" for b x by simp
      have "sall (grows n0 s) (handle_data_connection e i ?s2)"
        unfolding handle_data_connection_def write_message_eq sall_bind
        by (rule sall_any) (simp add: l)
      with 3 show ?thesis by simp
    qed (use w in \<open>simp_all add: send_connected_def recv_connected_def write_message_eq\<close>)
  qed
  show ?thesis
    using inv g1 body by (auto simp: on_accept_def grows_refl Let_def)
qed

lemma data_ready_grows:
  assumes "op_inv n0 s"
  shows "handler_fits (map_of (operators s)) (OnSendReady i) \<Longrightarrow> sall (grows n0 s) (do_send_file i s)"
    and "handler_fits (map_of (operators s)) (OnRecvReady i) \<Longrightarrow> sall (grows n0 s) (do_recv_file i s)"
    and "handler_fits (map_of (operators s)) (OnListWritten i r) \<Longrightarrow> sall (grows n0 s) (list_send i r s)"
  using assms
  by (auto simp: do_send_file_def do_recv_file_def list_send_def intro!: grows_pending split: option.splits)

lemma completed_grows: "op_inv n0 s \<Longrightarrow> sall (grows n0 s) (transfer_completed e s)"
proof -
  assume inv: "op_inv n0 s"
  let ?t = "enqueue (get_code_string transfer_complete) NoToken s"
  have g: "grows n0 s ?t" using inv by (intro grows_enqueue) simp_all
  then have "op_inv n0 ?t" by (simp add: grows_def)
  then have "grows n0 ?t (clear_data_socket ?t)"
    by (rule grows_same) (simp_all add: clear_data_socket_def extends_same)
  with g show ?thesis by (auto simp: transfer_completed_def write_message_eq intro: grows_trans)
qed

lemma list_written_grows:
  assumes inv: "op_inv n0 s" shows "sall (grows n0 s) (list_written e r s)"
proof -
  have g: "grows n0 s (s\<lparr>listings := x\<rparr>)" for x
    using inv by (auto intro!: grows_same extends_same)
  have "sall (grows n0 s) (transfer_completed e (s\<lparr>listings := x\<rparr>))" for x
    by (rule grows_then [OF g]) (rule completed_grows)
  with completed_grows [OF inv, of e] show ?thesis
    by (simp add: list_written_def transfer_completed_def Let_def)
qed

lemma send_deal_grows:
  assumes inv: "op_inv n0 s" and fits: "handler_fits (map_of (operators s)) (OnSendReady i)"
  shows "sall (grows n0 s) (send_deal_event e i limit s)"
proof -
  from fits obtain f where f: "lookup_op i s = Some (Sending f)" "0 < sf_fd f" "sf_token f"
    by (auto simp: lookup_op_def sending_ok_def)
  have u: "grows n0 s (update_op i (Sending (f\<lparr>sf_offset := x\<rparr>)) s)" for x
    using inv f by (intro grows_update) (auto simp: fits_kept_def sending_ok_def receiving_ok_def listing_ok_def)
  have fits': "handler_fits (map_of (operators (update_op i (Sending (f\<lparr>sf_offset := x\<rparr>)) s))) (OnSendReady i)" for x
    using f lookup_update_op [of i i "Sending (f\<lparr>sf_offset := x\<rparr>)" s] by (simp add: lookup_op_def sending_ok_def)
  have again: "sall (grows n0 s) (do_send_file i (update_op i (Sending (f\<lparr>sf_offset := x\<rparr>)) s))" for x
    by (rule grows_then [OF u]) (rule data_ready_grows(1) [OF _ fits'])
  have finish: "sall (grows n0 s) (transfer_completed e (update_op i (Sending (f\<lparr>sf_offset := x\<rparr>)) s))" for x
    by (rule grows_then [OF u]) (rule completed_grows)
  have "sall (grows n0 s) (Inr (add_pending (OnLimiter i) (update_op i (Sending (f\<lparr>sf_offset := x\<rparr>)) s)))" for x
    by (rule grows_then [OF u]) (use fits' in \<open>auto intro!: grows_pending\<close>)
  with inv f fits again finish data_ready_grows(1) [OF inv] show ?thesis
    by (auto simp: send_deal_event_def grows_refl Let_def split: data_sock.splits sendfile_result.splits option.splits)
qed

lemma recv_deal_grows:
  assumes inv: "op_inv n0 s" and fits: "handler_fits (map_of (operators s)) (OnRecvReady i)"
  shows "sall (grows n0 s) (recv_deal_event e i s)"
proof -
  from fits obtain f where f: "lookup_op i s = Some (Receiving f)" "0 < rf_fd f" "rf_token f"
    by (auto simp: lookup_op_def receiving_ok_def)
  let ?u = "\<lambda>p w. update_op i (Receiving (f\<lparr>rf_in_pipe := p, rf_written := w\<rparr>)) s"
  have u: "grows n0 s (?u p w)" for p w
    using inv f by (intro grows_update) (auto simp: fits_kept_def sending_ok_def receiving_ok_def listing_ok_def)
  have "handler_fits (map_of (operators (?u p w))) (OnRecvReady i)" for p w
    using f lookup_update_op [of i i "Receiving (f\<lparr>rf_in_pipe := p, rf_written := w\<rparr>)" s]
    by (simp add: lookup_op_def receiving_ok_def)
  then have again: "sall (grows n0 s) (do_recv_file i (?u p w))" for p w
    by (intro grows_then [OF u]) (rule data_ready_grows(2), simp_all)
  show ?thesis
    using inv f u again completed_grows [OF inv, of e]
    by (auto simp: recv_deal_event_def grows_refl split: data_sock.splits option.splits splice_end.splits
          intro!: sall_any)
qed

end
