(* ===== verification/Reachability.thy ===== *)
theory Reachability
  imports Handlers
begin

text \<open>
  The handlers of the session itself, one completion as a whole, and the ownership
  invariant in every reachable state. \<open>session_invariant\<close> is the contract by which every
  other invariant of the session is lifted to the reachable states.
\<close>

subsection \<open>Reading and dispatching\<close>

lemma run_op_summary:
  assumes "op_inv n0 s"
  shows "sall (\<lambda>t. \<exists>u. t = release e u \<and> grows n0 s u \<and> operators u \<noteq> []) (run_op e c s)"
proof -
  have "sall (\<lambda>u. grows n0 s u \<and> operators u \<noteq> []) (do_operation e i v)"
    if "grows n0 s v" "operators v \<noteq> []" for i v
    using that do_operation_grows [of n0 v e i] grows_trans [of n0 s v]
    by (auto elim!: sall_mono simp: grows_def [of n0 s v]) (auto simp: grows_def)
  then have "sall (\<lambda>(i, v). sall (\<lambda>u. grows n0 s u \<and> operators u \<noteq> []) (do_operation e i v)) (construct e c s)"
    using construct_grows [OF assms, of e c] by (auto elim!: sall_mono)
  then show ?thesis
    unfolding run_op_def by (auto elim!: sall_mono split: prod.splits)
qed

text \<open>
  The two ways a request ends: an operator was run and released, or only a reply was
  queued.
\<close>

definition dispatched :: "u32 \<Rightarrow> 'w env \<Rightarrow> 'w sess \<Rightarrow> 'w sess \<Rightarrow> bool" where
  "dispatched n0 e s t \<longleftrightarrow>
     (\<exists>u. t = release e u \<and> grows n0 s u \<and> operators u \<noteq> []) \<or>
     (\<exists>u. t = restart_if_idle e u \<and> grows n0 s u)"

lemma dispatch_summary:
  assumes "op_inv n0 s"
  shows "sall (\<lambda>(b, t). if b then \<exists>u. t = release e u \<and> grows n0 s u \<and> operators u \<noteq> []
                        else grows n0 s t) (dispatch_task e s)"
proof -
  have g: "grows n0 s (enqueue b NoToken s)" for b
    using assms by (intro grows_enqueue) simp_all
  have r: "sall (\<lambda>(b, t). if b then \<exists>u. t = release e u \<and> grows n0 s u \<and> operators u \<noteq> []
                        else grows n0 s t) (sbind (run_op e c s) (\<lambda>s. Inr (True, s)))" for c
    using run_op_summary [OF assms, of e c] by simp
  show ?thesis
    unfolding dispatch_task_def reply_eq using g r
    by (auto simp del: sall_bind split: option.splits) (simp_all add: g)
qed

lemma handle_read_summary:
  assumes "op_inv n0 s"
  shows "sall (\<lambda>t. \<exists>s1. dispatched n0 e s1 t \<and> grows n0 s1 s1 \<and>
           (\<exists>b r. s1 = s\<lparr>buf := b, request := r\<rparr>)) (handle_read e n s)"
proof -
  obtain built req where p: "parse_line (take n (buf s)) (request s) = (built, req)"
    by (cases "parse_line (take n (buf s)) (request s)")
  let ?s1 = "s\<lparr>buf := drop n (buf s), request := req\<rparr>"
  have i: "op_inv n0 ?s1" using assms by (subst op_inv_cong [of _ s]) simp_all
  have d: "sall (\<lambda>(b, t). dispatched n0 e ?s1 (if \<not> b then restart_if_idle e t else t)) (dispatch_task e ?s1)"
    by (rule sall_mono [OF dispatch_summary [OF i]]) (auto simp: dispatched_def)
  then have "sall (\<lambda>t. dispatched n0 e ?s1 t) (handle_read e n s)"
    using grows_refl [OF i] by (auto simp: handle_read_def p Let_def dispatched_def elim!: sall_mono)
  then show ?thesis
    using grows_refl [OF i] by (auto elim!: sall_mono)
qed

subsection \<open>Frames of the session's own steps\<close>

lemma restart_frame [simp]:
  "operators (restart_if_idle e s) = operators s" "active_op_num (restart_if_idle e s) = active_op_num s"
  "next_op (restart_if_idle e s) = next_op s" "pending (restart_if_idle e s) = pending s"
  "message_queue (restart_if_idle e s) = message_queue s" "stoped (restart_if_idle e s) = stoped s"
  "submitted (restart_if_idle e s) = submitted s" "sent (restart_if_idle e s) = sent s"
  "dropped (restart_if_idle e s) = dropped s" "destroyed (restart_if_idle e s) = destroyed s"
  "acceptor (restart_if_idle e s) = acceptor s" "data_socket (restart_if_idle e s) = data_socket s"
  "verified (restart_if_idle e s) = verified s" "user (restart_if_idle e s) = user s"
  "is_anonymous (restart_if_idle e s) = is_anonymous s" "world (restart_if_idle e s) = world s"
  "current_path (restart_if_idle e s) = current_path s" "open_fds (restart_if_idle e s) = open_fds s"
  "listings (restart_if_idle e s) = listings s" "buf (restart_if_idle e s) = buf s"
  by (simp_all add: restart_if_idle_def update_idle_timer_def)

lemma op_inv_restart: "op_inv n0 (restart_if_idle e s) = op_inv n0 s"
  by (rule op_inv_cong) simp_all

lemma op_inv_never: "op_inv n0 (expires_never s) = op_inv n0 s"
  by (rule op_inv_cong) (simp_all add: expires_never_def)

lemma op_inv_close: "op_inv n0 (close s) = op_inv n0 s"
  by (rule op_inv_cong) (simp_all add: close_def)

lemma op_inv_idle: "op_inv n0 (update_idle_timer e t s) = op_inv n0 s" "op_inv n0 (cancel_idle_timer s) = op_inv n0 s"
  by (rule op_inv_cong; simp add: update_idle_timer_def cancel_idle_timer_def)+

lemma op_inv_drop: "op_inv n0 (drop_session s) = op_inv n0 s"
  by (rule op_inv_cong) (simp_all add: drop_session_def)

lemma op_inv_do_read: "op_inv n0 s \<Longrightarrow> op_inv n0 (do_read s)"
  by (simp add: do_read_def op_inv_add_pending)

lemma op_inv_start_idle: "op_inv n0 s \<Longrightarrow> op_inv n0 (start_idle_timer s)"
  by (simp add: start_idle_timer_def op_inv_add_pending)

lemma op_inv_dispatched: "dispatched n0 e s t \<Longrightarrow> op_inv n0 t"
  by (auto simp: dispatched_def grows_def op_inv_release op_inv_restart)

lemma op_inv_do_write: "op_inv n0 s \<Longrightarrow> sall (op_inv n0) (do_write_message e s)"
  by (simp add: do_write_message_def op_inv_idle op_inv_add_pending)

lemma op_inv_pop: "op_inv n0 s \<Longrightarrow> op_inv n0 (s\<lparr>message_queue := tl (message_queue s)\<rparr>)"
  by (cases "message_queue s") (auto simp: op_inv_def)

subsection \<open>The ownership invariant over one completion\<close>

lemma on_read_op_inv:
  assumes "op_inv n0 s" shows "sall (op_inv n0) (on_read e s)"
proof -
  have k: "op_inv n0 ((add_pending OnKeepAlive (expires_never (close s)))\<lparr>keep_cancelled := False\<rparr>)"
    using op_inv_add_pending [of n0 "expires_never (close s)" OnKeepAlive] assms
    by (subst op_inv_cong [of _ "add_pending OnKeepAlive (expires_never (close s))"])
       (simp_all add: op_inv_never op_inv_close)
  have "op_inv n0 (expires_never (s\<lparr>buf := b\<rparr>))" for b
    using assms by (subst op_inv_never, subst op_inv_cong [of _ s]) simp_all
  then have "sall (\<lambda>t. op_inv n0 (do_read t)) (handle_read e n (expires_never (s\<lparr>buf := b\<rparr>)))" for n b
    by (rule sall_mono [OF handle_read_summary]) (blast intro: op_inv_do_read op_inv_dispatched)
  with assms k show ?thesis
    by (auto simp: on_read_def Let_def op_inv_close split: ec.splits)
qed

lemma run_token_grows:
  "op_inv n0 s \<Longrightarrow> token_fits (map_of (operators s)) t \<Longrightarrow> sall (grows n0 s) (run_token t s)"
  by (cases t) (auto simp: run_token_def grows_refl intro!: data_ready_grows)

lemma on_write_op_inv:
  assumes inv: "op_inv n0 s" shows "sall (op_inv n0) (on_write e s)"
proof (cases "ec_of e = Success")
  case False
  have "op_inv n0 (s\<lparr>message_queue := [], dropped := x\<rparr>)" for x
    using inv by (simp add: op_inv_def)
  with False show ?thesis by (simp add: on_write_def op_inv_release)
next
  case True
  show ?thesis
  proof (cases "message_queue s")
    case Nil
    with True show ?thesis by (simp add: on_write_def)
  next
    case (Cons m ms)
    obtain b t where m: "m = (b, t)" by (cases m)
    let ?s1 = "s\<lparr>sent := sent s @ [b]\<rparr>"
    have "op_inv n0 ?s1" using inv by (subst op_inv_cong [of _ s]) simp_all
    moreover have "token_fits (map_of (operators ?s1)) t"
      using inv Cons m by (auto simp: op_inv_def)
    ultimately have "sall (grows n0 ?s1) (run_token t ?s1)" by (rule run_token_grows)
    then have "sall (\<lambda>u. op_inv n0 (u\<lparr>message_queue := tl (message_queue u)\<rparr>)) (run_token t ?s1)"
      by (rule sall_mono) (auto simp: grows_def intro!: op_inv_pop)
    then have "sall (\<lambda>u. sall (op_inv n0) (do_write_message e
        (release e (u\<lparr>message_queue := tl (message_queue u)\<rparr>)))) (run_token t ?s1)"
      by (rule sall_mono) (intro op_inv_do_write op_inv_release)
    then show ?thesis by (simp add: on_write_def True Cons m)
  qed
qed

lemma on_banner_op_inv: "op_inv n0 s \<Longrightarrow> sall (op_inv n0) (on_banner e b s)"
proof -
  assume "op_inv n0 s"
  then have "op_inv n0 (s\<lparr>sent := x\<rparr>)" "op_inv n0 (s\<lparr>dropped := x\<rparr>)" for x
    by (subst op_inv_cong [of _ s]; simp)+
  then show ?thesis
    by (simp add: on_banner_def op_inv_start_idle op_inv_do_read op_inv_idle)
qed

lemma on_idle_op_inv: "op_inv n0 s \<Longrightarrow> sall (op_inv n0) (on_idle e s)"
  by (simp add: on_idle_def op_inv_start_idle op_inv_close)

text \<open>The state a handler starts from: its own operation is no longer pending.\<close>

lemma op_inv_taken:
  "op_inv n0 s \<Longrightarrow> op_inv n0 (s\<lparr>pending := remove1 h (pending s)\<rparr>)"
  using set_remove1_subset [of h "pending s"] by (auto simp: op_inv_def)

lemma fits_taken:
  "op_inv n0 s \<Longrightarrow> h \<in> set (pending s) \<Longrightarrow>
   handler_fits (map_of (operators (s\<lparr>pending := hs\<rparr>))) h"
  by (simp add: op_inv_def)

lemma grows_op_inv: "sall (grows n0 s) m \<Longrightarrow> sall (op_inv n0) m"
  by (erule sall_mono) (simp add: grows_def)

lemma handler_body_op_inv:
  assumes "op_inv n0 s" and "handler_fits (map_of (operators s)) h"
  shows "sall (op_inv n0) (handler_body e h s)"
  using assms
  by (cases h)
     (auto simp: handler_body_def intro: on_banner_op_inv on_read_op_inv on_idle_op_inv on_write_op_inv
        on_accept_grows [THEN grows_op_inv] send_deal_grows [THEN grows_op_inv]
        recv_deal_grows [THEN grows_op_inv] list_written_grows [THEN grows_op_inv])

lemma complete_op_inv:
  assumes "op_inv n0 s" and "h \<in> set (pending s)" shows "sall (op_inv n0) (complete e h s)"
proof -
  let ?s = "s\<lparr>pending := remove1 h (pending s)\<rparr>"
  have "sall (op_inv n0) (handler_body e h ?s)"
    by (rule handler_body_op_inv [OF op_inv_taken [OF assms(1)] fits_taken [OF assms]])
  then have "sall (\<lambda>t. op_inv n0 (drop_session (release e t))) (handler_body e h ?s)"
    by (rule sall_mono) (simp add: op_inv_drop op_inv_release)
  then show ?thesis by (simp add: complete_def)
qed

subsection \<open>Lifting to the reachable states\<close>

lemma op_inv_started: "started n0 s \<Longrightarrow> op_inv n0 s"
  by (auto simp: started_def new_session_def start_def new_context_def add_pending_def op_inv_def Let_def)

lemma op_inv_completion:
  "op_inv n0 s \<Longrightarrow> deliverable h s \<Longrightarrow> complete e h s = Inr t \<Longrightarrow> op_inv n0 t"
  using complete_op_inv [of n0 s h e] by (simp add: deliverable_def)

lemma op_inv_world: "op_inv n0 s \<Longrightarrow> op_inv n0 (s\<lparr>world := w\<rparr>)"
  by (simp add: op_inv_def)

lemma op_inv_step: "op_inv n0 s \<Longrightarrow> sess_step E s t \<Longrightarrow> op_inv n0 t"
  by (erule sess_stepE) (blast intro: op_inv_completion op_inv_world)+

interpretation ownership: machine_invariant "started n0" "sess_step E" "op_inv n0"
  by unfold_locales (auto intro: op_inv_started op_inv_step)

lemma reachable_op_inv: "reachable E n0 s \<Longrightarrow> op_inv n0 s"
  by (auto simp: reachable_def intro: ownership.reached_inv)

text \<open>
  An invariant that may use the ownership invariant: it holds of a started session, every
  completion keeps it, and so does a change of the file system.
\<close>

locale session_invariant =
  fixes E :: "'w env \<Rightarrow> bool" and n0 :: u32 and inv :: "'w sess \<Rightarrow> bool"
  assumes at_start: "started n0 s \<Longrightarrow> inv s"
    and at_completion: "op_inv n0 s \<Longrightarrow> inv s \<Longrightarrow> E e \<Longrightarrow> deliverable h s \<Longrightarrow> complete e h s = Inr t \<Longrightarrow> inv t"
    and at_world: "inv s \<Longrightarrow> inv (s\<lparr>world := w\<rparr>)"
begin

sublocale lifted: machine_invariant "started n0" "sess_step E" "\<lambda>s. op_inv n0 s \<and> inv s"
  by unfold_locales
     (blast intro: op_inv_started at_start op_inv_completion op_inv_world at_completion at_world
        elim: sess_stepE)+

lemma in_reachable: "reachable E n0 s \<Longrightarrow> inv s"
  using lifted.reached_inv by (auto simp: reachable_def)

end

text \<open>Every operator alive between two handlers is referenced: none is leaked.\<close>

definition no_orphans :: "'w sess \<Rightarrow> bool" where
  "no_orphans s \<longleftrightarrow> (\<forall>i \<in> fst ` set (operators s). referenced i s)"

lemma no_orphans_release: "no_orphans (release e s)"
  by (auto simp: no_orphans_def release_operators referenced_cong [of "release e s" s])

lemma no_orphans_drop: "no_orphans (drop_session s) = no_orphans s"
  using referenced_cong [of "drop_session s" s] by (simp add: no_orphans_def drop_session_def)

lemma complete_no_orphans: "complete e h s = Inr t \<Longrightarrow> no_orphans t"
  by (auto simp: complete_def sbind_Inr_iff no_orphans_drop no_orphans_release split: if_splits)

interpretation orphans: session_invariant E n0 no_orphans
proof unfold_locales
  fix s :: "'a sess" assume "started n0 s"
  then show "no_orphans s"
    by (auto simp: started_def new_session_def start_def new_context_def add_pending_def no_orphans_def Let_def)
next
  fix s :: "'a sess" and w assume "no_orphans s"
  then show "no_orphans (s\<lparr>world := w\<rparr>)"
    using referenced_cong [of "s\<lparr>world := w\<rparr>" s] by (simp add: no_orphans_def)
qed (rule complete_no_orphans)

end
