(* ===== verification/Session_Shape.thy ===== *)
theory Session_Shape
  imports Reachability "HOL-Library.Sublist"
begin

text \<open>
  The shape of a session between two handlers: which of its own operations are pending in
  which phase, that at most one control write is under way and exactly when messages wait,
  and that replies reach the wire in the order in which they were handed over.
\<close>

subsection \<open>Counting the session's own operations\<close>

definition own :: "'w sess \<Rightarrow> handler \<Rightarrow> nat" where
  "own s h = count_list (session_handlers (pending s)) h"

lemma count_session_handlers:
  "handler_ref h = None \<Longrightarrow> count_list (session_handlers hs) h = count_list hs h"
  by (induction hs) auto

lemma own_count: "handler_ref h = None \<Longrightarrow> own s h = count_list (pending s) h"
  by (simp add: own_def count_session_handlers)

text \<open>Replies in order: what was written and what waits is what was handed over, but for drops.\<close>

definition fifo :: "'w sess \<Rightarrow> bool" where
  "fifo s \<longleftrightarrow> subseq (sent s @ map fst (message_queue s)) (submitted s) \<and>
     (dropped s = [] \<longrightarrow> submitted s = sent s @ map fst (message_queue s))"

definition lined :: "nat \<Rightarrow> nat \<Rightarrow> nat \<Rightarrow> 'w sess \<Rightarrow> bool" where
  "lined r k i s \<longleftrightarrow> own s OnRead = r \<and> own s OnKeepAlive = k \<and> own s OnIdle = i \<and>
     (\<forall>b. own s (OnBanner b) = 0) \<and> \<not> destroyed s \<and> fifo s"

definition writing :: "'w sess \<Rightarrow> bool" where
  "writing s \<longleftrightarrow> own s OnWrite = (if message_queue s = [] then 0 else 1)"

lemma own_extends:
  assumes "extends s t"
  shows "own t h = own s h + (if h = OnWrite \<and> message_queue s = [] \<and> message_queue t \<noteq> [] then 1 else 0)"
  using assms by (auto simp: extends_def own_def)

lemma fifo_extends: "extends s t \<Longrightarrow> fifo s \<Longrightarrow> fifo t"
  by (auto simp: extends_def fifo_def simp flip: append_assoc intro: list_emb_append_mono)

lemma lined_extends: "extends s t \<Longrightarrow> lined r k i s \<Longrightarrow> lined r k i t"
  using own_extends [of s t] fifo_extends [of s t] by (auto simp: lined_def) (auto simp: extends_def)

lemma writing_extends: "extends s t \<Longrightarrow> writing s \<Longrightarrow> writing t"
  using own_extends [of s t OnWrite] by (auto simp: writing_def) (auto simp: extends_def)

lemma lined_cong:
  "pending t = pending s \<Longrightarrow> message_queue t = message_queue s \<Longrightarrow> submitted t = submitted s \<Longrightarrow>
   sent t = sent s \<Longrightarrow> dropped t = dropped s \<Longrightarrow> destroyed t = destroyed s \<Longrightarrow>
   lined r k i t = lined r k i s \<and> writing t = writing s"
  by (simp add: lined_def fifo_def writing_def own_def)

lemma lined_release [simp]: "lined r k i (release e s) = lined r k i s" "writing (release e s) = writing s"
  using lined_cong [of "release e s" s] by simp_all

lemma lined_restart [simp]:
  "lined r k i (restart_if_idle e s) = lined r k i s" "writing (restart_if_idle e s) = writing s"
  using lined_cong [of "restart_if_idle e s" s] by simp_all

lemma lined_timers [simp]:
  "lined r k i (expires_never s) = lined r k i s" "writing (expires_never s) = writing s"
  "lined r k i (update_idle_timer e x s) = lined r k i s" "writing (update_idle_timer e x s) = writing s"
  "lined r k i (cancel_idle_timer s) = lined r k i s" "writing (cancel_idle_timer s) = writing s"
  "lined r k i (close s) = lined r k i s" "writing (close s) = writing s"
  by (simp_all add: lined_def fifo_def writing_def own_def expires_never_def update_idle_timer_def
        cancel_idle_timer_def close_def)

lemma lined_pending:
  "lined r k i (add_pending OnRead s) = (0 < r \<and> lined (r - 1) k i s)"
  "lined r k i (add_pending OnKeepAlive s) = (0 < k \<and> lined r (k - 1) i s)"
  "lined r k i (add_pending OnIdle s) = (0 < i \<and> lined r k (i - 1) s)"
  by (auto simp: lined_def own_def fifo_def add_pending_def)

lemma writing_pending:
  "handler_ref h = None \<Longrightarrow> h \<noteq> OnWrite \<Longrightarrow> writing (add_pending h s) = writing s"
  by (simp add: writing_def own_def add_pending_def)

lemma lined_dispatched:
  "dispatched n0 e s t \<Longrightarrow> lined r k i s \<Longrightarrow> lined r k i t"
  "dispatched n0 e s t \<Longrightarrow> writing s \<Longrightarrow> writing t"
  by (auto simp: dispatched_def grows_def dest: lined_extends writing_extends)

subsection \<open>Phases\<close>

definition starting :: "'w sess \<Rightarrow> bool" where
  "starting s \<longleftrightarrow> (\<exists>b. pending s = [OnBanner b] \<and> submitted s = [b]) \<and> message_queue s = [] \<and>
     operators s = [] \<and> sent s = [] \<and> dropped s = [] \<and> \<not> stoped s \<and> \<not> destroyed s"

definition in_service :: "'w sess \<Rightarrow> bool" where
  "in_service s \<longleftrightarrow> writing s \<and>
     (\<exists>r k i. lined r k i s \<and> r + k = 1 \<and> i \<le> 1 \<and> (\<not> stoped s \<longrightarrow> r = 1 \<and> i = 1))"

definition shape :: "'w sess \<Rightarrow> bool" where
  "shape s \<longleftrightarrow> starting s \<or> in_service s \<or> (destroyed s \<and> fifo s)"

text \<open>Before the session is dropped, its read operation may be gone.\<close>

definition leaving :: "'w sess \<Rightarrow> bool" where
  "leaving s \<longleftrightarrow> writing s \<and>
     (\<exists>r k i. lined r k i s \<and> r + k \<le> 1 \<and> i \<le> 1 \<and> (\<not> stoped s \<longrightarrow> k = 0 \<and> (r = 1 \<longrightarrow> i = 1)))"

lemma stoped_timers [simp]:
  "stoped (close s)" "stoped (update_idle_timer e x s) = stoped s" "stoped (cancel_idle_timer s) = stoped s"
  "stoped (expires_never s) = stoped s"
  by (simp_all add: close_def update_idle_timer_def cancel_idle_timer_def expires_never_def)

lemma leavingI:
  "lined r k i s \<Longrightarrow> writing s \<Longrightarrow> r + k \<le> 1 \<Longrightarrow> i \<le> 1 \<Longrightarrow>
   (\<not> stoped s \<Longrightarrow> k = 0 \<and> (r = 1 \<longrightarrow> i = 1)) \<Longrightarrow> leaving s"
  by (auto simp: leaving_def)

lemma in_serviceE:
  assumes "in_service s"
  obtains r k i where "lined r k i s" "writing s" "r + k = 1" "i \<le> 1"
    "\<not> stoped s \<Longrightarrow> r = 1 \<and> i = 1" "\<not> stoped s \<Longrightarrow> k = 0"
  using assms by (auto simp: in_service_def)

lemma own_pos: "handler_ref h = None \<Longrightarrow> h \<in> set (pending s) \<Longrightarrow> 0 < own s h"
  by (simp add: own_count count_list_0_iff neq0_conv [symmetric] del: neq0_conv)

lemma owns_iff: "owns_session h \<longleftrightarrow> h = OnRead \<or> h = OnKeepAlive \<or> (\<exists>b. h = OnBanner b)"
  by (cases h) auto

lemma own_zero: "handler_ref h = None \<Longrightarrow> own s h = 0 \<longleftrightarrow> h \<notin> set (pending s)"
  by (simp add: own_count count_list_0_iff)

lemma owner_exists:
  assumes "lined r k i s"
  shows "(\<exists>h \<in> set (pending s). owns_session h) \<longleftrightarrow> 0 < r + k"
proof -
  have "\<And>b. OnBanner b \<notin> set (pending s)"
    using assms own_zero [of "OnBanner b" s for b] by (auto simp: lined_def)
  moreover have "OnRead \<in> set (pending s) \<longleftrightarrow> 0 < r" "OnKeepAlive \<in> set (pending s) \<longleftrightarrow> 0 < k"
    using assms own_zero [of OnRead s] own_zero [of OnKeepAlive s] by (auto simp: lined_def)
  ultimately show ?thesis unfolding owns_iff by auto
qed

lemma leaving_drop:
  assumes "leaving s" shows "shape (drop_session (release e s))"
proof -
  let ?s = "release e s"
  from assms obtain r k i where l: "lined r k i ?s" "r + k \<le> 1" "i \<le> 1" "writing ?s"
    "\<not> stoped s \<longrightarrow> k = 0 \<and> (r = 1 \<longrightarrow> i = 1)"
    by (auto simp: leaving_def)
  show ?thesis
  proof (cases "\<exists>h \<in> set (pending ?s). owns_session h")
    case True
    then have "drop_session ?s = ?s" by (simp add: drop_session_def)
    moreover have "r + k = 1" using True owner_exists [OF l(1)] l(2) by linarith
    moreover have "in_service ?s"
      using l calculation(2) unfolding in_service_def
      by (intro conjI exI [of _ r] exI [of _ k] exI [of _ i]) auto
    ultimately show ?thesis by (simp add: shape_def)
  next
    case False
    then show ?thesis using l(1) by (auto simp: drop_session_def shape_def lined_def fifo_def)
  qed
qed

subsection \<open>Handlers\<close>

lemma own_taken:
  "handler_ref h = None \<Longrightarrow>
   own (s\<lparr>pending := remove1 h (pending s)\<rparr>) h' = (if h' = h then own s h - 1 else own s h')"
  by (induction "pending s") (auto simp: own_def count_list_remove1 session_handlers_def filter_remove1)

lemma session_handlers_taken:
  "handler_ref h \<noteq> None \<Longrightarrow> session_handlers (remove1 h hs) = session_handlers hs"
  by (induction hs) auto

lemma taken_op:
  assumes "handler_ref h \<noteq> None"
  shows "lined r k i (s\<lparr>pending := remove1 h (pending s)\<rparr>) = lined r k i s"
    and "writing (s\<lparr>pending := remove1 h (pending s)\<rparr>) = writing s"
  using session_handlers_taken [OF assms] by (simp_all add: lined_def fifo_def writing_def own_def)

lemma leaving_grows:
  assumes "in_service s" and "handler_ref h \<noteq> None"
    and "grows n0 (s\<lparr>pending := remove1 h (pending s)\<rparr>) t"
  shows "leaving t"
proof -
  from assms(1) obtain r k i where l: "lined r k i s" "writing s" "r + k = 1" "i \<le> 1"
    "\<not> stoped s \<Longrightarrow> r = 1 \<and> i = 1" "\<not> stoped s \<Longrightarrow> k = 0" by (rule in_serviceE) blast
  have x: "extends (s\<lparr>pending := remove1 h (pending s)\<rparr>) t" using assms(3) by (simp add: grows_def)
  have "lined r k i t" "writing t"
    using lined_extends [OF x] writing_extends [OF x] l taken_op [OF assms(2), where s = s] by auto
  moreover have "stoped t = stoped s" using x by (simp add: extends_def)
  ultimately show ?thesis using l by (intro leavingI [of r k i]) auto
qed

lemma leaving_idle:
  assumes "in_service s" and "OnIdle \<in> set (pending s)"
  shows "sall leaving (on_idle e (s\<lparr>pending := remove1 OnIdle (pending s)\<rparr>))"
proof -
  let ?s = "s\<lparr>pending := remove1 OnIdle (pending s)\<rparr>"
  from assms(1) obtain r k i where l: "lined r k i s" "writing s" "r + k = 1" "i \<le> 1"
    "\<not> stoped s \<Longrightarrow> r = 1 \<and> i = 1" "\<not> stoped s \<Longrightarrow> k = 0" by (rule in_serviceE) blast
  have t: "lined r k (i - 1) ?s" "writing ?s"
    using l own_taken [of OnIdle s] by (auto simp: lined_def fifo_def writing_def)
  have "stoped s \<Longrightarrow> leaving ?s" using t l by (intro leavingI [of r k "i - 1"]) auto
  moreover have "\<not> stoped s \<Longrightarrow> leaving (start_idle_timer ?s)"
    using t l by (intro leavingI [of r k i]) (auto simp: start_idle_timer_def lined_pending writing_pending)
  moreover have "leaving (close ?s)"
    using t l by (intro leavingI [of r k "i - 1"]) auto
  ultimately show ?thesis by (simp add: on_idle_def)
qed

lemma leaving_keep:
  assumes "in_service s" and "OnKeepAlive \<in> set (pending s)"
  shows "leaving (s\<lparr>pending := remove1 OnKeepAlive (pending s)\<rparr>)"
proof -
  let ?s = "s\<lparr>pending := remove1 OnKeepAlive (pending s)\<rparr>"
  from assms(1) obtain r k i where l: "lined r k i s" "writing s" "r + k = 1" "i \<le> 1"
    "\<not> stoped s \<Longrightarrow> r = 1 \<and> i = 1" "\<not> stoped s \<Longrightarrow> k = 0" by (rule in_serviceE) blast
  have "0 < own s OnKeepAlive" using assms(2) by (intro own_pos) simp_all
  then have k: "k = 1" "r = 0" "stoped s" using l by (auto simp: lined_def)
  have "lined 0 0 i ?s" "writing ?s"
    using l k own_taken [of OnKeepAlive s] by (auto simp: lined_def fifo_def writing_def)
  then show ?thesis using l k by (intro leavingI [of 0 0 i]) auto
qed

lemma leaving_read:
  assumes "op_inv n0 s" and "in_service s" and "OnRead \<in> set (pending s)"
  shows "sall leaving (on_read e (s\<lparr>pending := remove1 OnRead (pending s)\<rparr>))"
proof -
  let ?s = "s\<lparr>pending := remove1 OnRead (pending s)\<rparr>"
  from assms(2) obtain r k i where l: "lined r k i s" "writing s" "r + k = 1" "i \<le> 1"
    "\<not> stoped s \<Longrightarrow> r = 1 \<and> i = 1" "\<not> stoped s \<Longrightarrow> k = 0" by (rule in_serviceE) blast
  have "0 < own s OnRead" using assms(3) by (intro own_pos) simp_all
  then have k: "k = 0" "r = 1" using l by (auto simp: lined_def)
  have s: "lined 0 0 i ?s" "writing ?s"
    using l k own_taken [of OnRead s] by (auto simp: lined_def fifo_def writing_def)
  have leave: "leaving ?s"
    by (rule leavingI [of 0 0 i]) (use s l k in auto)
  have closed: "leaving (close ?s)"
    by (rule leavingI [of 0 0 i]) (use s l k in auto)
  have keep: "leaving ((add_pending OnKeepAlive (expires_never (close ?s)))\<lparr>keep_cancelled := False\<rparr>)"
  proof -
    let ?t = "add_pending OnKeepAlive (expires_never (close ?s))"
    have "lined 0 1 i ?t" "writing ?t" using s by (simp_all add: lined_pending writing_pending)
    moreover have "stoped ?t" by (simp add: add_pending_def expires_never_def close_def)
    ultimately show ?thesis
      using l lined_cong [of "?t\<lparr>keep_cancelled := False\<rparr>" ?t] by (intro leavingI [of 0 1 i]) auto
  qed
  have read: "sall leaving (sbind (handle_read e n (expires_never (?s\<lparr>buf := b\<rparr>))) (\<lambda>s. Inr (do_read s)))" for n b
  proof -
    let ?t = "expires_never (?s\<lparr>buf := b\<rparr>)"
    have "op_inv n0 ?s" by (rule op_inv_taken [OF assms(1)])
    then have "op_inv n0 ?t" unfolding op_inv_never by (subst op_inv_cong [of _ ?s]) simp_all
    note hr = handle_read_summary [OF this, of e n]
    have "leaving (do_read u)" if "dispatched n0 e (?t\<lparr>buf := b', request := q\<rparr>) u" for u b' q
    proof -
      let ?v = "?t\<lparr>buf := b', request := q\<rparr>"
      have v: "lined 0 0 i ?v" "writing ?v"
        using s lined_cong [of ?v "?s"] by (simp_all add: expires_never_def)
      have "stoped u = stoped s"
        using that by (auto simp: dispatched_def grows_def extends_def expires_never_def)
      moreover have "lined 1 0 i (do_read u)" "writing (do_read u)"
        using lined_dispatched [OF that] v by (simp_all add: do_read_def lined_pending writing_pending)
      ultimately show ?thesis
        using l k by (intro leavingI [of 1 0 i]) (auto simp: do_read_def add_pending_def)
    qed
    then have "sall (\<lambda>u. leaving (do_read u)) (handle_read e n ?t)"
      by (intro sall_mono [OF hr]) blast
    then show ?thesis by simp
  qed
  show ?thesis
    using leave closed keep read by (auto simp: on_read_def Let_def simp del: sall_bind split: ec.splits)
qed

lemma leaving_write:
  assumes "op_inv n0 s" and "in_service s" and "OnWrite \<in> set (pending s)"
  shows "sall leaving (on_write e (s\<lparr>pending := remove1 OnWrite (pending s)\<rparr>))"
    and "message_queue s \<noteq> []"
proof -
  let ?s = "s\<lparr>pending := remove1 OnWrite (pending s)\<rparr>"
  from assms(2) obtain r k i where l: "lined r k i s" "writing s" "r + k = 1" "i \<le> 1"
    "\<not> stoped s \<Longrightarrow> r = 1 \<and> i = 1" "\<not> stoped s \<Longrightarrow> k = 0" by (rule in_serviceE) blast
  have "0 < own s OnWrite" using assms(3) by (intro own_pos) simp_all
  then have q: "message_queue s \<noteq> []" "own s OnWrite = 1" using l(2) by (auto simp: writing_def split: if_splits)
  then show "message_queue s \<noteq> []" by simp
  then obtain b t ms where ms: "message_queue s = (b, t) # ms" by (cases "message_queue s") auto
  have s: "lined r k i ?s" "own ?s OnWrite = 0"
    using l q own_taken [of OnWrite s] by (auto simp: lined_def fifo_def)
  have fail: "leaving (release e (?s\<lparr>message_queue := [], dropped := dropped s @ map fst (message_queue s)\<rparr>))"
  proof -
    let ?t = "?s\<lparr>message_queue := [], dropped := dropped s @ map fst (message_queue s)\<rparr>"
    have "subseq (sent s @ map fst (message_queue s)) (submitted s)"
      using l(1) by (simp add: lined_def fifo_def)
    then have "subseq (sent s) (submitted s)"
      by (rule subseq_order.trans [rotated]) (simp add: prefix_imp_subseq)
    then have "fifo ?t" using q by (simp add: fifo_def)
    then have "lined r k i ?t" "writing ?t"
      using s by (auto simp: lined_def writing_def own_def)
    with l show ?thesis by (intro leavingI [of r k i]) auto
  qed
  let ?s1 = "?s\<lparr>sent := sent s @ [b]\<rparr>"
  have "op_inv n0 ?s1"
    using op_inv_taken [OF assms(1), of OnWrite] by (subst op_inv_cong [of _ ?s]) simp_all
  moreover have "token_fits (map_of (operators ?s1)) t" using assms(1) ms by (auto simp: op_inv_def)
  ultimately have g: "sall (grows n0 ?s1) (run_token t ?s1)" by (rule run_token_grows)
  have pop: "sall leaving (do_write_message e (release e (u\<lparr>message_queue := tl (message_queue u)\<rparr>)))"
    if "grows n0 ?s1 u" for u
  proof -
    have x: "extends ?s1 u" using that by (simp add: grows_def)
    then obtain ms' where u: "message_queue u = (b, t) # ms @ ms'" "submitted u = submitted s @ map fst ms'"
      "sent u = sent s @ [b]" "dropped u = dropped s" "stoped u = stoped s" "destroyed u = destroyed s"
      by (auto simp: extends_def ms)
    have o: "own u h = own ?s h" for h
      using own_extends [OF x, of h] ms by (auto simp: own_def)
    let ?v = "release e (u\<lparr>message_queue := tl (message_queue u)\<rparr>)"
    have "lined r k i ?v"
    proof -
      have "fifo (u\<lparr>message_queue := tl (message_queue u)\<rparr>)"
      proof -
        have f: "subseq (sent s @ b # map fst ms) (submitted s)"
          "dropped s = [] \<Longrightarrow> submitted s = sent s @ b # map fst ms"
          using s(1) ms by (simp_all add: lined_def fifo_def)
        have "subseq ((sent s @ b # map fst ms) @ map fst ms') (submitted s @ map fst ms')"
          using f(1) by (rule list_emb_append_mono) simp
        with f(2) u show ?thesis by (simp add: fifo_def)
      qed
      then have "fifo ?v" by (simp add: fifo_def)
      then show ?thesis using s(1) u o by (auto simp: lined_def own_def)
    qed
    moreover have "own ?v OnWrite = 0" using o [of OnWrite] s(2) by (simp add: own_def)
    moreover have "lined r k i (add_pending OnWrite ?v) = lined r k i ?v"
      by (auto simp: lined_def own_def fifo_def add_pending_def)
    moreover have "stoped ?v = stoped s" using u by simp
    ultimately have v: "lined r k i ?v" "own ?v OnWrite = 0" "lined r k i (add_pending OnWrite ?v)" "stoped ?v = stoped s"
      by simp_all
    have w: "message_queue ?v \<noteq> [] \<Longrightarrow> writing (add_pending OnWrite ?v)" "message_queue ?v = [] \<Longrightarrow> writing ?v"
      using v(2) by (simp_all add: writing_def own_def add_pending_def)
    have "message_queue ?v \<noteq> [] \<Longrightarrow> leaving (add_pending OnWrite ?v)"
      by (rule leavingI [of r k i]) (use v w l in \<open>auto simp: add_pending_def\<close>)
    moreover have "message_queue ?v = [] \<Longrightarrow> leaving ?v"
      by (rule leavingI [of r k i]) (use v w l in auto)
    moreover have "message_queue ?v = [] \<Longrightarrow> leaving (update_idle_timer e x ?v)" for x
      by (rule leavingI [of r k i]) (use v w l in auto)
    moreover have "message_queue ?v = [] \<Longrightarrow> leaving (cancel_idle_timer ?v)"
      by (rule leavingI [of r k i]) (use v w l in auto)
    ultimately show ?thesis by (simp add: do_write_message_def)
  qed
  show "sall leaving (on_write e ?s)"
  proof (cases "ec_of e = Success")
    case True
    have "sall (\<lambda>u. sall leaving (do_write_message e (release e (u\<lparr>message_queue := tl (message_queue u)\<rparr>))))
            (run_token t ?s1)"
      by (rule sall_mono [OF g]) (rule pop)
    with True show ?thesis by (simp add: on_write_def ms)
  qed (use fail in \<open>simp add: on_write_def\<close>)
qed

subsection \<open>The shape in every reachable state\<close>

lemma banner_shape:
  assumes "starting s" and "h \<in> set (pending s)" and "complete e h s = Inr t"
  shows "shape t"
proof -
  from assms(1,2) obtain b where b: "pending s = [OnBanner b]" "h = OnBanner b" "submitted s = [b]"
    and s: "message_queue s = []" "sent s = []" "dropped s = []" "\<not> stoped s" "\<not> destroyed s"
    by (auto simp: starting_def)
  let ?s = "s\<lparr>pending := []\<rparr>"
  have "leaving u" if "on_banner e b ?s = Inr u" for u
  proof (cases "ec_of e = Success")
    case True
    with that have u: "u = start_idle_timer (do_read (update_idle_timer e (max_idle_timeout (cfg e)) (?s\<lparr>sent := [b]\<rparr>)))"
      by (simp add: on_banner_def s)
    have "lined 0 0 0 (?s\<lparr>sent := [b]\<rparr>)" "writing (?s\<lparr>sent := [b]\<rparr>)"
      using b s by (simp_all add: lined_def own_def fifo_def writing_def)
    then have "lined 1 0 1 u" "writing u"
      by (simp_all add: u start_idle_timer_def do_read_def lined_pending writing_pending)
    then show ?thesis by (intro leavingI [of 1 0 1]) auto
  next
    case False
    with that have u: "u = ?s\<lparr>dropped := [b]\<rparr>" by (simp add: on_banner_def s)
    have "lined 0 0 0 u" "writing u"
      using b s by (simp_all add: u lined_def own_def fifo_def writing_def)
    then show ?thesis by (intro leavingI [of 0 0 0]) auto
  qed
  then show ?thesis
    using assms(3) s(5) b by (auto simp: complete_def handler_body_def sbind_Inr_iff intro: leaving_drop)
qed

text \<open>The handlers of operators only add to a session.\<close>

lemma operator_handler_grows:
  assumes "op_inv n0 s" and "h \<in> set (pending s)" and "handler_ref h \<noteq> None"
  shows "sall (grows n0 (s\<lparr>pending := remove1 h (pending s)\<rparr>)) (handler_body e h (s\<lparr>pending := remove1 h (pending s)\<rparr>))"
proof -
  let ?s = "s\<lparr>pending := remove1 h (pending s)\<rparr>"
  have inv': "op_inv n0 ?s" by (rule op_inv_taken [OF assms(1)])
  have fits: "handler_fits (map_of (operators ?s)) h" by (rule fits_taken [OF assms(1,2)])
  show ?thesis
    using assms(3) fits on_accept_grows [OF inv'] send_deal_grows [OF inv'] recv_deal_grows [OF inv']
      list_written_grows [OF inv']
    by (cases h) (auto simp: handler_body_def)
qed

lemma no_banner: "in_service s \<Longrightarrow> OnBanner b \<notin> set (pending s)"
  using own_pos [of "OnBanner b" s] by (auto simp: in_service_def lined_def)

lemma in_service_body:
  assumes inv: "op_inv n0 s" and srv: "in_service s" and h: "h \<in> set (pending s)"
  shows "sall leaving (handler_body e h (s\<lparr>pending := remove1 h (pending s)\<rparr>))"
proof (cases "handler_ref h")
  case None
  then show ?thesis
    using no_banner [OF srv] h leaving_read [OF inv srv] leaving_idle [OF srv] leaving_keep [OF srv]
      leaving_write(1) [OF inv srv]
    by (cases h) (auto simp: handler_body_def)
next
  case (Some i)
  then have r: "handler_ref h \<noteq> None" by simp
  show ?thesis
    by (rule sall_mono [OF operator_handler_grows [OF inv h r]]) (rule leaving_grows [OF srv r])
qed

lemma complete_shape:
  assumes "op_inv n0 s" and "shape s" and "deliverable h s" and "complete e h s = Inr t"
  shows "shape t"
proof -
  have h: "h \<in> set (pending s)" using assms(3) by (simp add: deliverable_def)
  have "\<not> destroyed s" using assms(4) by (auto simp: complete_def)
  with assms(2) consider "starting s" | "in_service s" by (auto simp: shape_def)
  then show ?thesis
  proof cases
    case 1
    then show ?thesis using h assms(4) by (rule banner_shape)
  next
    case 2
    have "sall (\<lambda>u. shape (drop_session (release e u))) (handler_body e h (s\<lparr>pending := remove1 h (pending s)\<rparr>))"
      using in_service_body [OF assms(1) 2 h] by (rule sall_mono) (rule leaving_drop)
    then show ?thesis
      using assms(4) by (auto simp: complete_def sbind_Inr_iff split: if_splits)
  qed
qed

lemma shape_started: "started n0 s \<Longrightarrow> shape s"
  by (auto simp: started_def new_session_def start_def new_context_def add_pending_def Let_def shape_def starting_def)

lemma shape_world: "shape s \<Longrightarrow> shape (s\<lparr>world := w\<rparr>)"
proof -
  have "lined r k i (s\<lparr>world := w\<rparr>) = lined r k i s \<and> writing (s\<lparr>world := w\<rparr>) = writing s" for r k i
    by (rule lined_cong) simp_all
  moreover assume "shape s"
  ultimately show ?thesis by (auto simp: shape_def starting_def in_service_def fifo_def)
qed

interpretation shaped: session_invariant E n0 shape
  by unfold_locales (blast intro: shape_started complete_shape shape_world)+

lemma shape_fifo: "shape s \<Longrightarrow> \<not> starting s \<Longrightarrow> fifo s"
  by (auto simp: shape_def in_service_def lined_def)

end
