(* ===== verification/Idle_Timer.thy ===== *)
theory Idle_Timer
  imports Session_Shape
begin

text \<open>
  The idle timer and the wait that keeps a closed session alive. With the operator count
  started at zero and fewer than \<open>2 ^ 32\<close> operators created so far, the count tells
  exactly whether operators are alive; then the timer runs exactly while nothing is
  pending, and the closing wait is cancelled only when nothing is.
\<close>

definition few_ops :: "'w sess \<Rightarrow> bool" where
  "few_ops s \<longleftrightarrow> next_op s < 2 ^ 32"

definition calm :: "'w sess \<Rightarrow> bool" where
  "calm s \<longleftrightarrow> operators s = [] \<and> message_queue s = []"

lemma operators_bound: "op_inv n0 s \<Longrightarrow> length (operators s) \<le> next_op s"
proof -
  assume "op_inv n0 s"
  then have d: "distinct (map fst (operators s))" and b: "set (map fst (operators s)) \<subseteq> {..<next_op s}"
    by (auto simp: op_inv_def)
  from d have "length (operators s) = card (set (map fst (operators s)))"
    by (metis distinct_card length_map)
  also have "\<dots> \<le> card {..<next_op s}" using b by (intro card_mono) auto
  finally show ?thesis by simp
qed

lemma pending_iff: "op_inv 0 s \<Longrightarrow> few_ops s \<Longrightarrow> exists_pending_operator s \<longleftrightarrow> \<not> calm s"
proof -
  assume i: "op_inv 0 s" and f: "few_ops s"
  have "length (operators s) < 2 ^ 32" using operators_bound [OF i] f by (simp add: few_ops_def)
  then have "(of_nat (length (operators s)) :: u32) = 0 \<longleftrightarrow> operators s = []"
    by (simp add: word_of_nat_eq_0_iff) (auto dest: dvd_imp_le)
  then show ?thesis using i by (simp add: exists_pending_operator_def calm_def op_inv_def)
qed

subsection \<open>The three clauses\<close>

text \<open>The timer is set only when calm; it is set when calm; the wait is cancelled only when calm.\<close>

definition timed :: "'w sess \<Rightarrow> bool" where
  "timed s \<longleftrightarrow> (timer_expiry s \<noteq> Never \<longrightarrow> calm s)"

definition armed :: "'w sess \<Rightarrow> bool" where
  "armed s \<longleftrightarrow> (calm s \<and> dropped s = [] \<longrightarrow> timer_expiry s \<noteq> Never)"

definition held :: "'w sess \<Rightarrow> bool" where
  "held s \<longleftrightarrow> (keep_cancelled s \<longrightarrow> calm s)"

lemma dtor_effect_timer:
  assumes "dtor_effect e i s t"
  shows "if exists_pending_operator t then timer_expiry t = timer_expiry s \<and> keep_cancelled t = keep_cancelled s
         else \<not> stoped s \<longrightarrow> timer_expiry t \<noteq> Never"
proof -
  from assms obtain fds d x k where
    t: "t = s\<lparr>open_fds := fds, data_socket := d, operators := filter (\<lambda>(j, x). j \<noteq> i) (operators s),
          active_op_num := active_op_num s - 1, timer_expiry := x, keep_cancelled := k\<rparr>"
    and c: "if exists_pending_operator t then x = timer_expiry s \<and> k = keep_cancelled s
         else k \<and> x = (if stoped s then timer_expiry s
                         else At (now e + max_idle_timeout (cfg e) * 1000000000))"
    unfolding dtor_effect_def by blast
  have "timer_expiry t = x" "keep_cancelled t = k" using t by simp_all
  with c show ?thesis by (auto split: if_splits)
qed

lemma calm_destroyed_op:
  assumes "op_inv 0 s" "few_ops s" "\<not> referenced i s" "lookup_op i s \<noteq> None"
  shows "(\<not> stoped s \<longrightarrow> timed s \<longrightarrow> timed (destroy_op e i s) \<and> armed (destroy_op e i s)) \<and>
         (held s \<longrightarrow> held (destroy_op e i s))"
proof -
  let ?t = "destroy_op e i s"
  have "op_inv 0 ?t" by (rule op_inv_destroy [OF assms(1,3)])
  moreover have "few_ops ?t" using assms(2) by (simp add: few_ops_def)
  ultimately have p: "exists_pending_operator ?t \<longleftrightarrow> \<not> calm ?t" by (rule pending_iff)
  have n: "\<not> calm s" using assms(4) by (auto simp: calm_def lookup_op_def)
  have "if \<not> calm ?t then timer_expiry ?t = timer_expiry s \<and> keep_cancelled ?t = keep_cancelled s
        else \<not> stoped s \<longrightarrow> timer_expiry ?t \<noteq> Never"
    using dtor_effect_timer [OF destroy_op_effect [OF assms(4)], of e] unfolding p .
  with n show ?thesis by (auto simp: timed_def armed_def held_def split: if_splits)
qed

lemma fold_destroy_clauses:
  assumes "op_inv 0 s" "few_ops s" "\<forall>i \<in> set is. \<not> referenced i s"
  shows "(\<not> stoped s \<longrightarrow> timed s \<longrightarrow> timed (fold (destroy_op e) is s) \<and>
            (armed s \<longrightarrow> armed (fold (destroy_op e) is s))) \<and>
         (held s \<longrightarrow> held (fold (destroy_op e) is s))"
  using assms
proof (induction "is" arbitrary: s)
  case (Cons i "is")
  let ?t = "destroy_op e i s"
  have r: "\<forall>j \<in> set is. \<not> referenced j ?t"
    using Cons.prems(3) referenced_cong [of ?t s] by simp
  have t: "op_inv 0 ?t" "few_ops ?t"
    using Cons.prems op_inv_destroy by (auto simp: few_ops_def)
  have "(\<not> stoped s \<longrightarrow> timed s \<longrightarrow> timed ?t \<and> (armed s \<longrightarrow> armed ?t)) \<and> (held s \<longrightarrow> held ?t)"
    using calm_destroyed_op [OF Cons.prems(1,2), of i e] Cons.prems(3) destroy_op_dead [of i s e]
    by (cases "lookup_op i s = None") auto
  then show ?case using Cons.IH [OF t r] by simp
qed simp

lemma release_clauses:
  assumes "op_inv 0 s" "few_ops s"
  shows "\<not> stoped s \<Longrightarrow> timed s \<Longrightarrow> timed (release e s)"
    and "\<not> stoped s \<Longrightarrow> timed s \<Longrightarrow> armed s \<Longrightarrow> armed (release e s)"
    and "held s \<Longrightarrow> held (release e s)"
  using fold_destroy_clauses [OF assms, of "unreferenced s" e]
  by (auto simp: release_def unreferenced_def)

subsection \<open>The invariant\<close>

text \<open>Until \<open>2 ^ 32\<close> operators were created, the clauses hold.\<close>

definition clauses :: "'w sess \<Rightarrow> bool" where
  "clauses s \<longleftrightarrow> (few_ops s \<longrightarrow> (\<not> stoped s \<longrightarrow> timed s \<and> armed s) \<and>
                     (OnKeepAlive \<in> set (pending s) \<longrightarrow> stoped s \<and> held s))"

definition timer_inv :: "'w sess \<Rightarrow> bool" where
  "timer_inv s \<longleftrightarrow> shape s \<and> clauses s"

lemma clauses_release: "op_inv 0 s \<Longrightarrow> clauses s \<Longrightarrow> clauses (drop_session (release e s))"
proof -
  assume i: "op_inv 0 s" and c: "clauses s"
  have "timed (drop_session t) = timed t" "armed (drop_session t) = armed t" "held (drop_session t) = held t"
    "few_ops (drop_session t) = few_ops t" "stoped (drop_session t) = stoped t" "pending (drop_session t) = pending t" for t :: "'a sess"
    by (simp_all add: drop_session_def timed_def armed_def held_def few_ops_def calm_def)
  with i c release_clauses [OF i] show ?thesis by (auto simp: clauses_def few_ops_def)
qed

lemma busy_clauses:
  "\<not> calm s \<Longrightarrow> (\<not> stoped s \<Longrightarrow> timer_expiry s = Never) \<Longrightarrow>
   (OnKeepAlive \<in> set (pending s) \<Longrightarrow> stoped s \<and> \<not> keep_cancelled s) \<Longrightarrow> clauses s"
  by (auto simp: clauses_def timed_def armed_def held_def)

text \<open>A state with something pending that grows: the clauses carry over.\<close>

lemma clauses_grows:
  assumes "clauses s" and "\<not> calm s" and "grows 0 s t"
  shows "clauses t"
proof (cases "few_ops t")
  case True
  have x: "extends s t" "next_op s \<le> next_op t" "fst ` set (operators s) \<subseteq> fst ` set (operators t)"
    using assms(3) by (auto simp: grows_def)
  then have "few_ops s" using True by (simp add: few_ops_def)
  with assms(1,2) have c: "\<not> stoped s \<longrightarrow> timer_expiry s = Never"
    "OnKeepAlive \<in> set (pending s) \<longrightarrow> stoped s \<and> \<not> keep_cancelled s"
    by (auto simp: clauses_def timed_def held_def)
  have k: "OnKeepAlive \<in> set (pending t) \<longleftrightarrow> OnKeepAlive \<in> set (pending s)"
    using own_extends [OF x(1), of OnKeepAlive] own_zero [of OnKeepAlive s] own_zero [of OnKeepAlive t] by auto
  have "\<not> calm t" using assms(2) x by (auto simp: calm_def extends_def)
  then show ?thesis using c k x(1) by (intro busy_clauses) (auto simp: extends_def)
qed (simp add: clauses_def)

lemma clauses_cong:
  assumes "clauses s" "next_op t = next_op s" "stoped t = stoped s" "timer_expiry t = timer_expiry s"
    "keep_cancelled t = keep_cancelled s" "operators t = operators s"
    "message_queue t = message_queue s" "dropped t = dropped s"
    and p: "OnKeepAlive \<in> set (pending t) \<Longrightarrow> OnKeepAlive \<in> set (pending s)"
  shows "clauses t"
proof -
  have "few_ops t = few_ops s" "timed t = timed s" "armed t = armed s" "held t = held s"
    by (simp_all only: few_ops_def timed_def armed_def held_def calm_def assms)
  with assms(1,3) p show ?thesis by (auto simp: clauses_def)
qed

lemma clauses_taken:
  "clauses s \<Longrightarrow> clauses (s\<lparr>pending := remove1 h (pending s)\<rparr>)"
  by (erule clauses_cong) (auto dest: notin_set_remove1 set_mp [OF set_remove1_subset])

lemma live_not_calm: "op_inv n0 s \<Longrightarrow> h \<in> set (pending s) \<Longrightarrow> handler_ref h \<noteq> None \<Longrightarrow> \<not> calm s"
  by (auto simp: op_inv_def calm_def dest!: bspec [of _ _ h] dest: handler_fits_alive)

lemma clauses_never: "\<not> calm s \<Longrightarrow> timer_expiry s = Never \<Longrightarrow> OnKeepAlive \<notin> set (pending s) \<Longrightarrow> clauses s"
  by (rule busy_clauses) auto

lemma read_clauses:
  assumes inv: "op_inv 0 s" and srv: "in_service s" and h: "OnRead \<in> set (pending s)" and c: "clauses s"
  shows "sall clauses (on_read e (s\<lparr>pending := remove1 OnRead (pending s)\<rparr>))"
proof -
  let ?s = "s\<lparr>pending := remove1 OnRead (pending s)\<rparr>"
  from srv obtain r k i where l: "lined r k i s" "r + k = 1" by (rule in_serviceE) blast
  have "0 < own s OnRead" using h by (intro own_pos) simp_all
  then have "own s OnKeepAlive = 0" using l by (auto simp: lined_def)
  then have k: "OnKeepAlive \<notin> set (pending s)" using own_zero [of OnKeepAlive s] by simp
  then have k': "OnKeepAlive \<notin> set (pending ?s)" using set_remove1_subset [of OnRead "pending s"] by auto
  have c': "clauses ?s" by (rule clauses_taken [OF c])
  have closed: "clauses (close ?s)" using k' by (auto simp: clauses_def close_def)
  have keep: "clauses ((add_pending OnKeepAlive (expires_never (close ?s)))\<lparr>keep_cancelled := False\<rparr>)"
    by (auto simp: clauses_def held_def add_pending_def expires_never_def close_def)
  have read: "clauses (do_read u)"
    if d: "dispatched 0 e v u" and v: "timer_expiry v = Never" "pending v = pending ?s" for u v
  proof -
    have nk: "OnKeepAlive \<notin> set (pending w)" if "grows 0 v w" for w
      using that k' v own_extends [of v w OnKeepAlive] own_zero [of OnKeepAlive v] own_zero [of OnKeepAlive w]
      by (auto simp: grows_def)
    from d have "clauses u"
      unfolding dispatched_def
    proof (elim disjE exE conjE)
      fix w assume w: "u = release e w" "grows 0 v w" "operators w \<noteq> []"
      have "clauses w"
        by (rule clauses_never) (use w v nk in \<open>auto simp: calm_def grows_def extends_def\<close>)
      then have "few_ops w \<longrightarrow> \<not> stoped w \<longrightarrow> timed (release e w) \<and> armed (release e w)"
        using release_clauses [of w e] w by (auto simp: clauses_def grows_def)
      then show "clauses u" using w nk by (auto simp: clauses_def few_ops_def)
    next
      fix w assume w: "u = restart_if_idle e w" "grows 0 v w"
      have "timer_expiry w = Never" using w v by (auto simp: grows_def extends_def)
      then have "few_ops w \<longrightarrow> timed u \<and> armed u"
        using pending_iff [of w] w
        by (auto simp: grows_def restart_if_idle_def update_idle_timer_def timed_def armed_def calm_def)
      then show "clauses u" using w nk by (auto simp: clauses_def few_ops_def)
    qed
    then show ?thesis by (rule clauses_cong) (simp_all add: do_read_def add_pending_def)
  qed
  have "sall (\<lambda>u. clauses (do_read u)) (handle_read e n (expires_never (?s\<lparr>buf := b\<rparr>)))" for n b
  proof -
    have "op_inv 0 ?s" by (rule op_inv_taken [OF inv])
    then have "op_inv 0 (expires_never (?s\<lparr>buf := b\<rparr>))"
      unfolding op_inv_never by (subst op_inv_cong [of _ ?s]) simp_all
    then show ?thesis
      by (rule sall_mono [OF handle_read_summary]) (elim exE conjE, erule read, simp_all add: expires_never_def)
  qed
  then show ?thesis
    using c' closed keep by (auto simp: on_read_def Let_def split: ec.splits)
qed

lemma released_clauses: "op_inv 0 s \<Longrightarrow> clauses s \<Longrightarrow> clauses (release e s)"
  using release_clauses [of s e] by (auto simp: clauses_def few_ops_def)

text \<open>
  The end of a control write: after the message is popped and its references released, the
  timer is started by whoever finds nothing pending.
\<close>

lemma do_write_clauses:
  assumes "op_inv 0 s" and "few_ops s \<Longrightarrow> \<not> stoped s \<Longrightarrow> timed s"
    and "few_ops s \<Longrightarrow> OnKeepAlive \<in> set (pending s) \<Longrightarrow> stoped s \<and> held s"
  shows "sall clauses (do_write_message e s)"
proof -
  have more: "clauses (add_pending OnWrite s)" if "message_queue s \<noteq> []"
    using that assms(2,3) by (auto simp: clauses_def add_pending_def few_ops_def timed_def armed_def held_def calm_def)
  have busy: "clauses s" if "exists_pending_operator s"
    using that assms pending_iff [of s] by (auto simp: clauses_def armed_def)
  have set: "clauses (update_idle_timer e x s)" if "\<not> exists_pending_operator s" "\<not> stoped s" for x
    using that assms pending_iff [of s]
    by (auto simp: clauses_def update_idle_timer_def few_ops_def timed_def armed_def held_def calm_def)
  have cancel: "clauses (cancel_idle_timer s)" if "\<not> exists_pending_operator s" "stoped s"
    using that assms pending_iff [of s]
    by (auto simp: clauses_def cancel_idle_timer_def few_ops_def timed_def armed_def held_def calm_def)
  show ?thesis using more busy set cancel by (simp add: do_write_message_def)
qed

lemma busy_facts:
  assumes "clauses s" "\<not> calm s" "few_ops s"
  shows "\<not> stoped s \<Longrightarrow> timer_expiry s = Never"
    and "OnKeepAlive \<in> set (pending s) \<Longrightarrow> stoped s \<and> \<not> keep_cancelled s"
  using assms by (auto simp: clauses_def timed_def held_def)

lemma write_clauses:
  assumes inv: "op_inv 0 s" and srv: "in_service s" and h: "OnWrite \<in> set (pending s)" and c: "clauses s"
  shows "sall clauses (on_write e (s\<lparr>pending := remove1 OnWrite (pending s)\<rparr>))"
proof -
  let ?s = "s\<lparr>pending := remove1 OnWrite (pending s)\<rparr>"
  obtain b t ms where ms: "message_queue s = (b, t) # ms"
    using leaving_write(2) [OF inv srv h] by (cases "message_queue s") auto
  then have busy: "\<not> calm s" by (simp add: calm_def)
  have inv': "op_inv 0 ?s" by (rule op_inv_taken [OF inv])
  have c': "clauses ?s" by (rule clauses_taken [OF c])
  have nc: "\<not> calm ?s" using busy by (simp add: calm_def)
  have fail: "clauses (release e (?s\<lparr>message_queue := [], dropped := dropped s @ map fst (message_queue s)\<rparr>))"
  proof -
    let ?t = "?s\<lparr>message_queue := [], dropped := dropped s @ map fst (message_queue s)\<rparr>"
    have "op_inv 0 ?t" using inv' by (auto simp: op_inv_def)
    moreover have "clauses ?t"
      using busy_facts [OF c' nc] ms
      by (auto simp: clauses_def few_ops_def timed_def armed_def held_def)
    ultimately show ?thesis by (rule released_clauses)
  qed
  let ?s1 = "?s\<lparr>sent := sent s @ [b]\<rparr>"
  have i1: "op_inv 0 ?s1" using inv' by (subst op_inv_cong [of _ ?s]) simp_all
  moreover have "token_fits (map_of (operators ?s1)) t" using inv ms by (auto simp: op_inv_def)
  ultimately have g: "sall (grows 0 ?s1) (run_token t ?s1)" by (rule run_token_grows)
  have c1: "clauses ?s1" by (rule clauses_cong [OF c']) simp_all
  have nc1: "\<not> calm ?s1" using ms by (simp add: calm_def)
  have pop: "sall clauses (do_write_message e (release e (u\<lparr>message_queue := tl (message_queue u)\<rparr>)))"
    if gr: "grows 0 ?s1 u" for u
  proof -
    let ?v = "u\<lparr>message_queue := tl (message_queue u)\<rparr>"
    have cu: "clauses u" by (rule clauses_grows [OF c1 nc1 gr])
    have "message_queue u \<noteq> []" using gr ms by (auto simp: grows_def extends_def)
    then have "\<not> calm u" by (simp add: calm_def)
    note f = busy_facts [OF cu this]
    have iv: "op_inv 0 ?v" using gr by (simp add: grows_def op_inv_pop)
    have "few_ops ?v \<Longrightarrow> \<not> stoped ?v \<Longrightarrow> timed ?v"
      using f(1) by (simp add: few_ops_def timed_def)
    moreover have "few_ops ?v \<Longrightarrow> OnKeepAlive \<in> set (pending ?v) \<Longrightarrow> stoped ?v \<and> held ?v"
      using f(2) by (simp add: few_ops_def held_def)
    ultimately show ?thesis
      using release_clauses(1,3) [OF iv, of e]
      by (intro do_write_clauses op_inv_release [OF iv]) (simp_all add: few_ops_def)
  qed
  show ?thesis
  proof (cases "ec_of e = Success")
    case True
    have "sall (\<lambda>u. sall clauses (do_write_message e (release e (u\<lparr>message_queue := tl (message_queue u)\<rparr>))))
            (run_token t ?s1)"
      by (rule sall_mono [OF g]) (rule pop)
    with True show ?thesis by (simp add: on_write_def ms)
  qed (use fail in \<open>simp add: on_write_def\<close>)
qed

lemma idle_clauses:
  assumes c: "clauses s"
  shows "sall clauses (on_idle e (s\<lparr>pending := remove1 OnIdle (pending s)\<rparr>))"
proof -
  let ?s = "s\<lparr>pending := remove1 OnIdle (pending s)\<rparr>"
  have c': "clauses ?s" by (rule clauses_taken [OF c])
  have "clauses (start_idle_timer ?s)"
    by (rule clauses_cong [OF c']) (simp_all add: start_idle_timer_def add_pending_def)
  moreover have "\<not> stoped ?s \<Longrightarrow> clauses (close ?s)"
    using c' by (auto simp: clauses_def close_def few_ops_def)
  ultimately show ?thesis using c' by (simp add: on_idle_def)
qed

lemma banner_clauses:
  assumes "starting s" and c: "clauses s"
  shows "sall clauses (on_banner e b (s\<lparr>pending := []\<rparr>))"
proof -
  have s: "operators s = []" "message_queue s = []" "\<not> stoped s" using assms(1) by (simp_all add: starting_def)
  show ?thesis
    using s c by (auto simp: on_banner_def start_idle_timer_def do_read_def update_idle_timer_def add_pending_def
        clauses_def few_ops_def timed_def armed_def held_def calm_def)
qed

lemma body_clauses:
  assumes inv: "op_inv 0 s" and srv: "in_service s" and h: "h \<in> set (pending s)" and c: "clauses s"
  shows "sall clauses (handler_body e h (s\<lparr>pending := remove1 h (pending s)\<rparr>))"
proof -
  let ?s = "s\<lparr>pending := remove1 h (pending s)\<rparr>"
  have inv': "op_inv 0 ?s" by (rule op_inv_taken [OF inv])
  have c': "clauses ?s" by (rule clauses_taken [OF c])
  have fits: "handler_fits (map_of (operators ?s)) h" by (rule fits_taken [OF inv h])
  have nb: "h \<noteq> OnBanner b" for b
    using srv h own_pos [of "OnBanner b" s] by (auto simp: in_service_def lined_def)
  show ?thesis
  proof (cases "handler_ref h")
    case None
    then show ?thesis
      using nb h c' read_clauses [OF inv srv _ c] idle_clauses [OF c] write_clauses [OF inv srv _ c]
      by (cases h) (auto simp: handler_body_def)
  next
    case (Some i)
    then have nc: "\<not> calm ?s" using live_not_calm [OF inv h] by (simp add: calm_def)
    have g: "sall clauses m" if "sall (grows 0 ?s) m" for m
      by (rule sall_mono [OF that]) (rule clauses_grows [OF c' nc])
    show ?thesis
      using Some fits on_accept_grows [OF inv'] send_deal_grows [OF inv'] recv_deal_grows [OF inv']
        list_written_grows [OF inv']
      by (cases h) (auto simp: handler_body_def intro!: g)
  qed
qed

lemma complete_timer:
  assumes "op_inv 0 s" and "timer_inv s" and "deliverable h s" and "complete e h s = Inr t"
  shows "timer_inv t"
proof -
  have h: "h \<in> set (pending s)" using assms(3) by (simp add: deliverable_def)
  have sh: "shape s" "clauses s" using assms(2) by (simp_all add: timer_inv_def)
  have nd: "\<not> destroyed s" using assms(4) by (auto simp: complete_def)
  let ?m = "handler_body e h (s\<lparr>pending := remove1 h (pending s)\<rparr>)"
  from nd sh(1) consider "starting s" | "in_service s" by (auto simp: shape_def)
  then have "sall clauses ?m"
  proof cases
    case 1
    then obtain b where "pending s = [OnBanner b]" by (auto simp: starting_def)
    with h have "h = OnBanner b" "remove1 h (pending s) = []" by auto
    with banner_clauses [OF 1 sh(2)] show ?thesis by (simp add: handler_body_def)
  qed (rule body_clauses [OF assms(1) _ h sh(2)])
  moreover have "sall (op_inv 0) ?m"
    by (rule handler_body_op_inv [OF op_inv_taken [OF assms(1)] fits_taken [OF assms(1) h]])
  ultimately have "sall (\<lambda>u. op_inv 0 u \<and> clauses u) ?m" by (intro sall_conj)
  then have "sall (\<lambda>u. clauses (drop_session (release e u))) ?m"
    by (rule sall_mono) (blast intro: clauses_release)
  then have "clauses t" using assms(4) nd by (auto simp: complete_def sbind_Inr_iff)
  moreover have "shape t" by (rule complete_shape [OF assms(1) sh(1) assms(3,4)])
  ultimately show ?thesis by (simp add: timer_inv_def)
qed

lemma timer_started: "started 0 s \<Longrightarrow> timer_inv s"
  using shape_started [of 0 s]
  by (auto simp: timer_inv_def started_def new_session_def start_def new_context_def add_pending_def Let_def
        clauses_def timed_def armed_def held_def calm_def)

lemma timer_world: "timer_inv s \<Longrightarrow> timer_inv (s\<lparr>world := w\<rparr>)"
  using shape_world [of s w] clauses_cong [of s "s\<lparr>world := w\<rparr>"] by (simp add: timer_inv_def)

interpretation timing: session_invariant E 0 timer_inv
  by unfold_locales (blast intro: timer_started complete_timer timer_world)+

end
