(* ===== verification/Session_End.thy ===== *)
theory Session_End
  imports Idle_Timer "HOL-Library.Multiset"
begin

text \<open>
  How a session ends: by the idle timer, which fires only when nothing is pending, or by
  the end of the input, after which the session waits for its operators.
\<close>

lemma timer_facts: "reachable E 0 s \<Longrightarrow> op_inv 0 s \<and> shape s \<and> clauses s"
  using timing.in_reachable [of E s] reachable_op_inv by (auto simp: timer_inv_def)

lemma alive_in_service:
  assumes "shape s" and "\<not> destroyed s" and "h \<in> set (pending s)" and "\<forall>b. h \<noteq> OnBanner b"
  shows "in_service s"
  using assms by (auto simp: shape_def starting_def)

text \<open>With nothing alive only the read and the idle wait are pending.\<close>

lemma calm_pending:
  assumes "op_inv n0 s" and "in_service s" and "calm s" and "\<not> stoped s"
  shows "mset (pending s) = {#OnRead, OnIdle#}"
proof (rule multiset_eqI)
  fix h
  from assms(2,4) obtain k where l: "lined 1 k 1 s" "writing s" "k = 0" by (auto elim: in_serviceE)
  have zero: "handler_ref h \<noteq> None \<Longrightarrow> count_list (pending s) h = 0"
    using live_not_calm [OF assms(1), of h] assms(3) by (auto simp: count_list_0_iff)
  have w: "own s OnWrite = 0" using l(2) assms(3) by (simp add: writing_def calm_def)
  show "count (mset (pending s)) h = count {#OnRead, OnIdle#} h"
    using zero l w own_count [of h s] by (cases h) (auto simp: count_mset lined_def)
qed

lemma calm_release: "operators s = [] \<Longrightarrow> release e s = s"
  by (simp add: release_def unreferenced_def)

lemma remove1_pair: "mset xs = {#a, b#} \<Longrightarrow> remove1 b xs = [a]"
proof -
  assume "mset xs = {#a, b#}"
  then have "mset (remove1 b xs) = {#a#}" by simp
  then show ?thesis by (metis mset_single_iff_right)
qed

lemma idle_closes:
  assumes inv: "op_inv 0 s" "in_service s" "clauses s" "few_ops s" and "\<not> stoped s"
    and t: "timer_expiry s = At t" "t \<le> now e"
  shows "complete e OnIdle s = Inr (close (s\<lparr>pending := [OnRead]\<rparr>))" "calm s"
proof -
  show c: "calm s" using assms by (auto simp: clauses_def timed_def)
  have nd: "\<not> destroyed s" using inv(2) by (auto simp: in_service_def lined_def)
  have "remove1 OnIdle (pending s) = [OnRead]"
    using calm_pending [OF inv(1,2) c assms(5)] by (rule remove1_pair)
  then show "complete e OnIdle s = Inr (close (s\<lparr>pending := [OnRead]\<rparr>))"
    using c t assms(5) nd calm_release [of "close (s\<lparr>pending := [OnRead]\<rparr>)" e]
    by (simp add: complete_def handler_body_def on_idle_def drop_session_def calm_def close_def)
qed

text \<open>The read that the closing aborts is the last handler.\<close>

lemma last_read:
  assumes "operators s = []" "pending s = [OnRead]" "active_op_num s = 0" "\<not> destroyed s" "ec_of e \<noteq> Success"
  shows "\<exists>t. complete e OnRead s = Inr t \<and> destroyed t \<and> pending t = [] \<and> operators t = []"
  using assms calm_release
  by (cases "ec_of e")
     (auto simp: complete_def handler_body_def on_read_def drop_session_def close_def calm_release)

text \<open>The idle wait does not close a session that has work to do.\<close>

lemma idle_spares:
  assumes inv: "clauses s" "few_ops s" and "\<not> stoped s" and "\<not> calm s" and "complete e OnIdle s = Inr t"
  shows "\<not> stoped t \<and> OnIdle \<in> set (pending t)"
proof -
  have "timer_expiry s = Never" using assms by (auto simp: clauses_def timed_def)
  with assms(3,5) show ?thesis
    by (auto simp: complete_def handler_body_def on_idle_def start_idle_timer_def add_pending_def drop_session_def
          split: if_splits)
qed

subsection \<open>The end of the input\<close>

lemma referenced_after_take:
  assumes "handler_ref h = None"
  shows "referenced i (t\<lparr>pending := remove1 h (pending s)\<rparr>) = referenced i (t\<lparr>pending := pending s\<rparr>)"
proof -
  have "x \<in> set (remove1 h (pending s)) \<longleftrightarrow> x \<in> set (pending s)" if "handler_ref x = Some i" for x
    using that assms by (metis in_set_remove1 option.distinct(1))
  then show ?thesis by (auto simp: referenced_def)
qed

lemma no_orphans_filter: "no_orphans s \<Longrightarrow> (\<And>i. referenced i t = referenced i s) \<Longrightarrow> operators t = operators s \<Longrightarrow>
   operators (release e t) = operators s"
  by (auto simp: release_operators no_orphans_def intro!: filter_True)

lemma live_count:
  assumes "op_inv 0 s" "few_ops s" "operators s \<noteq> []" shows "active_op_num s \<noteq> 0"
proof -
  have "length (operators s) < 2 ^ 32" using operators_bound [OF assms(1)] assms(2) by (simp add: few_ops_def)
  then have "(of_nat (length (operators s)) :: u32) \<noteq> 0"
    using assms(3) by (simp add: word_of_nat_eq_0_iff) (auto dest: dvd_imp_le)
  then show ?thesis using assms(1) by (simp add: op_inv_def)
qed

lemma eof_waits:
  assumes inv: "op_inv 0 s" "few_ops s" "no_orphans s" and "\<not> destroyed s" "operators s \<noteq> []" "ec_of e = Eof"
  shows "\<exists>t. complete e OnRead s = Inr t \<and> \<not> destroyed t \<and> stoped t \<and> operators t = operators s \<and>
           OnKeepAlive \<in> set (pending t)"
proof -
  let ?s = "s\<lparr>pending := remove1 OnRead (pending s)\<rparr>"
  let ?t = "(add_pending OnKeepAlive (expires_never (close ?s)))\<lparr>keep_cancelled := False\<rparr>"
  have "active_op_num (close ?s) \<noteq> 0" using live_count [OF inv(1,2)] assms(5) by (simp add: close_def)
  then have b: "handler_body e OnRead ?s = Inr ?t" using assms(6) by (simp add: handler_body_def on_read_def Let_def)
  have "referenced i ?t = referenced i s" for i
  proof -
    have "referenced i ?t = referenced i (s\<lparr>pending := remove1 OnRead (pending s)\<rparr>)"
      by (auto simp: referenced_def add_pending_def expires_never_def close_def)
    also have "\<dots> = referenced i s" using referenced_after_take [of OnRead i s s] by simp
    finally show ?thesis .
  qed
  then have ops: "operators (release e ?t) = operators s"
    by (rule no_orphans_filter [OF inv(3)]) (simp add: add_pending_def expires_never_def close_def)
  have "drop_session (release e ?t) = release e ?t"
    by (auto simp: drop_session_def add_pending_def intro!: bexI [of _ OnKeepAlive])
  then show ?thesis
    using assms(4) b ops by (simp add: complete_def) (simp add: add_pending_def expires_never_def close_def)
qed

text \<open>
  With no operator alive the session is destroyed at once, and the pending idle wait and
  control write, which hold a raw pointer, run afterwards.
\<close>

lemma eof_drops:
  assumes inv: "op_inv n0 s" "in_service s" and "operators s = []" "n0 = 0" "OnRead \<in> set (pending s)" "ec_of e = Eof"
  shows "\<exists>t. complete e OnRead s = Inr t \<and> destroyed t \<and> pending t = remove1 OnRead (pending s)"
proof -
  let ?s = "s\<lparr>pending := remove1 OnRead (pending s)\<rparr>"
  have a: "active_op_num s = 0" using assms(1,3,4) by (simp add: op_inv_def)
  from inv(2) obtain r k i where l: "lined r k i s" "r + k = 1" by (rule in_serviceE) blast
  have "0 < own s OnRead" using assms(5) by (intro own_pos) simp_all
  then have "r = 1" "k = 0" using l by (auto simp: lined_def)
  then have "lined 0 0 i ?s" using l own_taken [of OnRead s] by (auto simp: lined_def fifo_def)
  then have "\<not> (\<exists>h \<in> set (pending ?s). owns_session h)" using owner_exists [of 0 0 i ?s] by simp
  moreover have "\<not> destroyed s" using l by (simp add: lined_def)
  ultimately show ?thesis
    using assms(3,6) a calm_release [of "close ?s" e]
    by (simp add: complete_def handler_body_def on_read_def Let_def drop_session_def close_def)
qed

end
