(* ===== verification/Crash_Facts.thy ===== *)
theory Crash_Facts
  imports Session_End
begin

text \<open>
  How a completion can end abnormally. As long as the session is not destroyed and the
  calls of the environment fail only with the exceptions they document, a handler never
  uses freed memory and never takes from an empty queue: what is left is an uncaught
  exception of a system call, a null data socket, and a copy loop that does not end.
\<close>

subsection \<open>Abnormal ends\<close>

definition accounted :: "crash set" where
  "accounted = {FsException, SystemError, NullDeref, Hang}"

definition sound :: "crash + 'a \<Rightarrow> bool" where
  "sound m \<longleftrightarrow> (\<forall>c. m = Inl c \<longrightarrow> c \<in> accounted)"

lemma sound_simps [simp]: "sound (Inr x)" "sound (Inl c) \<longleftrightarrow> c \<in> accounted"
  by (simp_all add: sound_def)

lemma accounted_simps [simp]:
  "FsException \<in> accounted" "SystemError \<in> accounted" "NullDeref \<in> accounted" "Hang \<in> accounted"
  "UseAfterFree \<notin> accounted" "EmptyQueue \<notin> accounted"
  by (simp_all add: accounted_def)

lemma sound_bind: "sound m \<Longrightarrow> (\<And>x. m = Inr x \<Longrightarrow> sound (f x)) \<Longrightarrow> sound (sbind m f)"
  by (cases m) simp_all

lemma sound_bind2: "sound m \<Longrightarrow> (\<And>a b. m = Inr (a, b) \<Longrightarrow> sound (f a b)) \<Longrightarrow> sound (sbind m (\<lambda>(a, b). f a b))"
  by (cases m) auto

lemma sound_if [simp]: "sound (if b then x else y) \<longleftrightarrow> (if b then sound x else sound y)"
  by simp

lemma sound_map [simp]: "sound (map_sum id f m) = sound m"
  by (cases m) simp_all

text \<open>The documented failures of the calls.\<close>

definition proper_entry :: "dirent \<Rightarrow> bool" where
  "proper_entry it \<longleftrightarrow> sound (de_status it) \<and> sound (de_links it) \<and> sound (de_size it)"

definition proper_calls :: "'w env \<Rightarrow> bool" where
  "proper_calls e \<longleftrightarrow>
     (\<forall>w p. sound (os_exists (sys e) w p) \<and> sound (os_is_directory (sys e) w p) \<and>
        sound (os_is_regular_file (sys e) w p) \<and> sound (os_canonical (sys e) w p) \<and>
        sound (os_file_size (sys e) w p) \<and> sound (os_create_directory (sys e) w p) \<and>
        sound (os_directory_iterator (sys e) w p) \<and>
        (\<forall>its. os_directory_iterator (sys e) w p = Inr its \<longrightarrow> list_all proper_entry its)) \<and>
     (\<forall>t. 0 \<le> tm_mon (os_localtime (sys e) t) \<and> tm_mon (os_localtime (sys e) t) < 12 \<and>
        0 \<le> tm_mon (os_gmtime (sys e) t) \<and> tm_mon (os_gmtime (sys e) t) < 12) \<and>
     sound (control_addr e) \<and> sound (available e)"

lemma calls_sound:
  assumes "proper_calls e"
  shows "sound (os_exists (sys e) w p)" "sound (os_is_directory (sys e) w p)"
    "sound (os_is_regular_file (sys e) w p)" "sound (os_canonical (sys e) w p)"
    "sound (os_file_size (sys e) w p)" "sound (os_create_directory (sys e) w p)"
    "sound (os_directory_iterator (sys e) w p)" "sound (control_addr e)" "sound (available e)"
  using assms by (simp_all add: proper_calls_def)

subsection \<open>Operations\<close>

lemma directory_sound: "proper_calls e \<Longrightarrow> sound (is_existing_directory e s p)"
  by (auto simp: is_existing_directory_def intro!: sound_bind calls_sound)

lemma control_sound:
  assumes "proper_calls e"
  shows "sound (ack_op e s)" "sound (syst_op e s)" "sound (print_working_dir_op e s)"
    "sound (auth_op e s)" "sound (property_op e s)" "sound (change_working_dir_op e s)"
    "sound (cd_to_parent_op e s)" "sound (create_dir_op e s)" "sound (size_op e s)"
    "sound (stat_op e s)" "sound (passive_mode_op e s)"
  by (auto simp: ack_op_def syst_op_def print_working_dir_op_def auth_op_def validate_def property_op_def
      change_working_dir_op_def cd_to_parent_op_def change_to_def create_dir_op_def size_op_def stat_op_def
      passive_mode_op_def reply_eq Let_def
      intro!: sound_bind calls_sound [OF assms] directory_sound [OF assms])

lemma fetch_sound: "sound (fetch_passive_connection e i s)"
  by (simp add: fetch_passive_connection_def check_data_port_def write_message_eq)

lemma ctor_sound:
  assumes "proper_calls e"
  shows "sound (send_file_ctor e s)" "sound (recv_file_ctor e s)"
  by (auto simp: send_file_ctor_def recv_file_ctor_def write_message_eq Let_def
      intro!: sound_bind calls_sound [OF assms] split: prod.split option.split)

text \<open>A new operator is found under its number, and is of the class its factory makes.\<close>

definition made :: "operator option \<Rightarrow> bool" where
  "made x \<longleftrightarrow> x \<noteq> None \<and> x \<noteq> Some (Plain SendFileOp) \<and> x \<noteq> Some (Plain RecvFileOp)"

lemma construct_made:
  assumes "op_inv n0 s"
  shows "sall (\<lambda>(i, t). made (lookup_op i t)) (construct e c s)"
proof -
  let ?s0 = "basic_op_ctor (s\<lparr>next_op := Suc (next_op s)\<rparr>)"
  have fresh: "next_op s \<notin> fst ` set (operators s)" using assms by (auto simp: op_inv_def)
  have new: "lookup_op (next_op s) (t\<lparr>operators := operators t @ [(next_op s, x)]\<rparr>) = Some x"
    if "ctor_effect ?s0 t" for t x
  proof -
    have "operators t = operators s"
      using that by (auto simp: ctor_effect_def basic_op_ctor_def dest: control_effect_frame(1))
    with fresh show ?thesis by (simp add: lookup_op_def map_of_eq_None_iff [symmetric] map_add_def)
  qed
  have plain: "lookup_op (next_op s) (?s0\<lparr>operators := operators ?s0 @ [(next_op s, x)]\<rparr>) = Some x" for x
    using new [of ?s0 x] ctor_effect_refl by blast
  have "sall (\<lambda>(i, t). made (lookup_op i t)) (sbind (send_file_ctor e ?s0)
      (\<lambda>(f, t). Inr (next_op s, t\<lparr>operators := operators t @ [(next_op s, Sending f)]\<rparr>)))"
    by (rule sall_step [OF send_file_ctor_effect]) (auto simp: new made_def)
  moreover have "sall (\<lambda>(i, t). made (lookup_op i t)) (sbind (recv_file_ctor e ?s0)
      (\<lambda>(f, t). Inr (next_op s, t\<lparr>operators := operators t @ [(next_op s, Receiving f)]\<rparr>)))"
    by (rule sall_step [OF recv_file_ctor_effect]) (auto simp: new made_def)
  ultimately show ?thesis
    unfolding construct_def Let_def by (cases c) (simp_all add: plain made_def del: sall_bind)
qed

lemma construct_sound: "proper_calls e \<Longrightarrow> sound (construct e c s)"
  unfolding construct_def Let_def by (cases c) (auto intro!: sound_bind ctor_sound)

lemma operation_sound:
  assumes "proper_calls e" and "made (lookup_op i s)"
  shows "sound (do_operation e i s)"
proof -
  obtain x where x: "lookup_op i s = Some x" "x \<noteq> Plain SendFileOp" "x \<noteq> Plain RecvFileOp"
    using assms(2) by (auto simp: made_def)
  show ?thesis
  proof (cases x)
    case (Plain c)
    with x control_sound [OF assms(1)] fetch_sound show ?thesis
      by (cases c) (simp_all add: do_operation_def list_op_def)
  qed (simp_all add: do_operation_def x send_file_op_def recv_file_op_def fetch_sound)
qed

lemma run_sound:
  assumes "proper_calls e" and "op_inv n0 s"
  shows "sound (run_op e c s)"
  unfolding run_op_def
proof (rule sound_bind2 [OF construct_sound [OF assms(1)]])
  fix i t assume "construct e c s = Inr (i, t)"
  with sallD [OF construct_made [OF assms(2)]] have "made (lookup_op i t)" by blast
  then show "sound (sbind (do_operation e i t) (\<lambda>s. Inr (release e s)))"
    by (intro sound_bind operation_sound [OF assms(1)]) simp_all
qed

lemma read_sound:
  assumes "proper_calls e" and "op_inv n0 s"
  shows "sound (handle_read e n s)"
proof -
  obtain built req where p: "parse_line (take n (buf s)) (request s) = (built, req)"
    by (cases "parse_line (take n (buf s)) (request s)")
  let ?s1 = "s\<lparr>buf := drop n (buf s), request := req\<rparr>"
  have "op_inv n0 ?s1" using assms(2) by (subst op_inv_cong [of _ s]) simp_all
  then have "sound (dispatch_task e ?s1)"
    using run_sound [OF assms(1)] by (auto simp: dispatch_task_def reply_eq intro!: sound_bind split: option.split)
  then show ?thesis by (auto simp: handle_read_def p Let_def intro!: sound_bind)
qed

subsection \<open>Handlers\<close>

lemma list_file_sound: "proper_calls e \<Longrightarrow> sound (list_file e p w)"
proof -
  assume e: "proper_calls e"
  have month: "\<not> (tm_mon t < 0 \<or> 12 \<le> tm_mon t)"
    if "t = (if use_local_time (cfg e) then os_localtime (sys e) k else os_gmtime (sys e) k)" for t k
    using e that by (simp add: proper_calls_def not_less not_le)
  have "sound (list_entry e it)" if "proper_entry it" for it
  proof -
    from that have it: "sound (de_status it)" "sound (de_links it)" "sound (de_size it)" by (simp_all add: proper_entry_def)
    show ?thesis
      unfolding list_entry_def Let_def
      by (rule sound_bind2 [OF it(1)], rule sound_bind [OF it(2)], rule sound_bind)
         (simp_all add: it(3) month [OF refl] del: de_Morgan_disj)
  qed
  then have "list_all proper_entry its \<Longrightarrow> sound (list_entries e its out)" for its out
    by (induction its arbitrary: out) (auto intro!: sound_bind)
  with e calls_sound(7) [OF e, of w p] show ?thesis
    by (auto simp: list_file_def proper_calls_def intro!: sound_bind)
qed

lemma deal_sound:
  assumes "proper_calls e"
  shows "sending_ok (lookup_op i s) \<Longrightarrow> sound (send_deal_event e i limit s)"
    and "receiving_ok (lookup_op i s) \<Longrightarrow> sound (recv_deal_event e i s)"
proof -
  show "sound (send_deal_event e i limit s)" if "sending_ok (lookup_op i s)"
    using that by (auto simp: send_deal_event_def sending_ok_def do_send_file_def transfer_completed_def write_message_eq Let_def
        split: option.split data_sock.split sendfile_result.split)
  show "sound (recv_deal_event e i s)" if "receiving_ok (lookup_op i s)"
    using that by (auto simp: recv_deal_event_def receiving_ok_def do_recv_file_def transfer_completed_def write_message_eq
        intro!: sound_bind calls_sound(9) [OF assms] split: option.split data_sock.split splice_end.split)
qed

lemma accept_sound:
  assumes "proper_calls e" and "handler_fits (map_of (operators s)) (OnAccept i)"
  shows "sound (on_accept e i s)"
proof -
  have "lookup_op i (set_data_socket (s\<lparr>acceptor := AccClosed\<rparr>)) \<noteq> None"
    using assms(2) by (auto simp: lookup_op_def set_data_socket_def sending_ok_def receiving_ok_def listing_ok_def)
  then show ?thesis
    by (auto simp: on_accept_def Let_def send_connected_def recv_connected_def handle_data_connection_def write_message_eq
        intro!: sound_bind list_file_sound [OF assms(1)] split: option.split operator.split)
qed

lemma write_sound: "message_queue s \<noteq> [] \<Longrightarrow> sound (on_write e s)"
proof -
  have "sound (run_token t u)" for t and u :: "'a sess"
    by (cases t) (auto simp: run_token_def do_send_file_def do_recv_file_def list_send_def split: option.split)
  moreover have "sound (do_write_message e u)" for u by (simp add: do_write_message_def)
  moreover assume "message_queue s \<noteq> []"
  ultimately show ?thesis by (cases "message_queue s") (auto simp: on_write_def intro!: sound_bind)
qed

lemma completion_sound:
  assumes "proper_calls e" and "op_inv n0 s" and "shape s" and "\<not> destroyed s" and h: "h \<in> set (pending s)"
  shows "sound (complete e h s)"
proof -
  let ?s = "s\<lparr>pending := remove1 h (pending s)\<rparr>"
  have inv: "op_inv n0 ?s" by (rule op_inv_taken [OF assms(2)])
  have "handler_fits (map_of (operators ?s)) h" by (rule fits_taken [OF assms(2) h])
  then have fits: "handler_fits (\<lambda>i. lookup_op i ?s) h" "handler_fits (map_of (operators ?s)) h" by (simp_all add: lookup_op_def)
  have queue: "h = OnWrite \<Longrightarrow> message_queue ?s \<noteq> []"
    using h alive_in_service [OF assms(3,4) h] leaving_write(2) [OF assms(2)] by auto
  have "op_inv n0 (expires_never (?s\<lparr>buf := b\<rparr>))" for b
    using inv by (subst op_inv_never, subst op_inv_cong [of _ ?s]) simp_all
  then have "sound (on_read e ?s)"
    using read_sound [OF assms(1)] by (auto simp: on_read_def Let_def intro!: sound_bind split: ec.split)
  then have "sound (handler_body e h ?s)"
    using fits queue deal_sound [OF assms(1), of _ ?s] accept_sound [OF assms(1), of ?s] write_sound [of ?s e]
    by (cases h) (auto simp: handler_body_def on_banner_def on_idle_def list_written_def write_message_eq Let_def
        intro!: sound_bind)
  with assms(4) show ?thesis by (auto simp: complete_def intro!: sound_bind)
qed

end
