(* ===== verification/Holdings.thy ===== *)
theory Holdings
  imports Reachability "HOL-Library.Multiset"
begin

text \<open>
  What handlers leave alone: the account of the session (login, directory, transfer type,
  the file system) and the file descriptors. Descriptors are opened by the constructors of
  the transfers and closed by their destructors only; \<open>owned_fds\<close> are those the live
  operators hold.
\<close>

subsection \<open>Accounts and descriptors\<close>

definition account :: "'w sess \<Rightarrow> bool \<times> string \<times> bool \<times> path \<times> transport_type \<times> 'w" where
  "account s = (verified s, user s, is_anonymous s, current_path s, transport s, world s)"

fun fds_of :: "operator \<Rightarrow> int multiset" where
  "fds_of (Sending f) = (if 0 < sf_fd f then {#sf_fd f#} else {#})"
| "fds_of (Receiving f) =
     (if 0 < rf_fd f then {#rf_fd f#} else {#}) +
     (if 0 < fst (rf_pipe f) then {#fst (rf_pipe f), snd (rf_pipe f)#} else {#})"
| "fds_of (Plain c) = {#}"

definition fds_in :: "(opid \<times> operator) list \<Rightarrow> int multiset" where
  "fds_in xs = sum_list (map (\<lambda>(i, x). fds_of x) xs)"

lemma fds_in_simps [simp]:
  "fds_in [] = {#}" "fds_in ((i, x) # xs) = fds_of x + fds_in xs" "fds_in (xs @ ys) = fds_in xs + fds_in ys"
  by (simp_all add: fds_in_def)

abbreviation owned_fds :: "'w sess \<Rightarrow> int multiset" where
  "owned_fds s \<equiv> fds_in (operators s)"

definition balanced :: "'w sess \<Rightarrow> bool" where
  "balanced s \<longleftrightarrow> mset (open_fds s) = owned_fds s"

lemma fds_in_update:
  "(\<And>x. (i, x) \<in> set xs \<Longrightarrow> fds_of x = fds_of obj) \<Longrightarrow>
   fds_in (map (\<lambda>(j, x). if j = i then (j, obj) else (j, x)) xs) = fds_in xs"
  by (induction xs) (auto simp: fds_in_def)

lemma owned_update:
  assumes "op_inv n0 s" and "lookup_op i s = Some y" and "fds_of obj = fds_of y"
  shows "owned_fds (update_op i obj s) = owned_fds s"
proof -
  have "x = y" if "(i, x) \<in> set (operators s)" for x
    using assms(1,2) that by (simp add: op_inv_def lookup_op_def map_of_eq_Some_iff)
  then show ?thesis
    using assms(3) by (auto simp: update_op_def intro!: fds_in_update)
qed

lemma fds_in_filter:
  "distinct (map fst xs) \<Longrightarrow> map_of xs i = Some x \<Longrightarrow>
   fds_in xs = fds_of x + fds_in (filter (\<lambda>(j, x). j \<noteq> i) xs)"
proof (induction xs)
  case (Cons p xs)
  obtain j y where p: "p = (j, y)" by (cases p)
  show ?case
  proof (cases "j = i")
    case True
    with Cons.prems p have "filter (\<lambda>(j, x). j \<noteq> i) xs = xs" by (force intro!: filter_True)
    with True Cons.prems p show ?thesis by simp
  qed (use Cons p in auto)
qed simp

subsection \<open>Handlers that leave both alone\<close>

definition keeps :: "'w sess \<Rightarrow> 'w sess \<Rightarrow> bool" where
  "keeps s t \<longleftrightarrow> account t = account s \<and> open_fds t = open_fds s \<and> owned_fds t = owned_fds s"

lemma keeps_simps [simp]:
  "keeps s s" "keeps s (enqueue b m t) = keeps s t" "keeps s (add_pending h t) = keeps s t"
  "keeps s (clear_data_socket t) = keeps s t" "keeps s (t\<lparr>acceptor := a\<rparr>) = keeps s t"
  "keeps s (set_data_socket t) = keeps s t" "keeps s (t\<lparr>listings := l\<rparr>) = keeps s t"
  "keeps s (t\<lparr>sent := l\<rparr>) = keeps s t" "keeps s (t\<lparr>dropped := l\<rparr>) = keeps s t"
  "keeps s (t\<lparr>message_queue := q\<rparr>) = keeps s t" "keeps s (t\<lparr>pending := hs\<rparr>) = keeps s t"
  "keeps s (t\<lparr>keep_cancelled := k\<rparr>) = keeps s t" "keeps s (t\<lparr>buf := x\<rparr>) = keeps s t"
  "keeps s (t\<lparr>request := r\<rparr>) = keeps s t"
  "keeps s (expires_never t) = keeps s t" "keeps s (update_idle_timer e n t) = keeps s t"
  "keeps s (cancel_idle_timer t) = keeps s t" "keeps s (close t) = keeps s t"
  "keeps s (restart_if_idle e t) = keeps s t" "keeps s (drop_session t) = keeps s t"
  by (simp_all add: keeps_def account_def add_pending_def clear_data_socket_def set_data_socket_def
        expires_never_def update_idle_timer_def cancel_idle_timer_def close_def restart_if_idle_def
        drop_session_def)

lemma account_update [simp]: "account (update_op i obj s) = account s"
  by (simp add: account_def update_op_def)

lemma keeps_update:
  "op_inv n0 s \<Longrightarrow> lookup_op i s = Some y \<Longrightarrow> fds_of obj = fds_of y \<Longrightarrow> keeps s (update_op i obj s)"
  by (simp add: keeps_def owned_update)

lemma keeps_trans: "keeps s t \<Longrightarrow> keeps t u \<Longrightarrow> keeps s u"
  by (simp add: keeps_def)

lemma fetch_keeps: "sall (keeps s) (fetch_passive_connection e i s)"
  "keeps s t \<Longrightarrow> sall (keeps s) (fetch_passive_connection e i t)"
  by (simp_all add: fetch_passive_connection_def check_data_port_def write_message_eq)

lemma transfer_start_keeps:
  "op_inv n0 s \<Longrightarrow> lookup_op i s = Some (Sending f) \<Longrightarrow> sall (keeps s) (send_file_op e i f s)"
  "op_inv n0 s \<Longrightarrow> lookup_op i s = Some (Receiving g) \<Longrightarrow> sall (keeps s) (recv_file_op e i g s)"
  by (auto simp: send_file_op_def recv_file_op_def intro!: fetch_keeps(2) keeps_update)

lemma data_keeps:
  "keeps s t \<Longrightarrow> sall (keeps s) (do_send_file i t)" "keeps s t \<Longrightarrow> sall (keeps s) (do_recv_file i t)"
  "keeps s t \<Longrightarrow> sall (keeps s) (list_send i r t)" "keeps s t \<Longrightarrow> sall (keeps s) (transfer_completed e t)"
  "keeps s t \<Longrightarrow> sall (keeps s) (list_written e r t)"
  by (auto simp: do_send_file_def do_recv_file_def list_send_def transfer_completed_def list_written_def
        write_message_eq Let_def split: option.splits)

lemma send_deal_keeps: "op_inv n0 s \<Longrightarrow> sall (keeps s) (send_deal_event e i limit s)"
  by (auto simp: send_deal_event_def Let_def intro!: data_keeps keeps_update
        split: option.splits operator.splits data_sock.splits sendfile_result.splits)

lemma recv_deal_keeps: "op_inv n0 s \<Longrightarrow> sall (keeps s) (recv_deal_event e i s)"
proof (cases "lookup_op i s")
  case (Some obj)
  assume inv: "op_inv n0 s"
  show ?thesis
  proof (cases obj)
    case (Receiving f)
    have u: "keeps s (update_op i (Receiving (f\<lparr>rf_in_pipe := p, rf_written := w\<rparr>)) s)" for p w
      using Some Receiving by (intro keeps_update [OF inv, of i "Receiving f"]) simp_all
    let ?u = "\<lambda>p w. update_op i (Receiving (f\<lparr>rf_in_pipe := p, rf_written := w\<rparr>)) s"
    have step: "sall (keeps s) (case splice_loop (splices e) (rf_in_pipe f) (rf_written f) of
        LoopRunning \<Rightarrow> Inl Hang | LoopError p w \<Rightarrow> Inr (?u p w) | LoopDone p w \<Rightarrow> do_recv_file i (?u p w))"
      using u data_keeps(2) [OF u] by (auto split: splice_end.splits)
    then show ?thesis
      using Some Receiving data_keeps(4) [OF keeps_simps(1), of s e]
      by (auto simp: recv_deal_event_def simp del: sall_if intro!: sall_any split: option.split data_sock.split if_split)
  qed (use Some in \<open>simp_all add: recv_deal_event_def\<close>)
qed (simp add: recv_deal_event_def)

lemma accept_keeps: "sall (keeps s) (on_accept e i s)"
  unfolding on_accept_def Let_def send_connected_def recv_connected_def handle_data_connection_def
  by (auto simp: write_message_eq intro!: sall_any split: option.splits operator.splits)

lemma do_write_keeps: "keeps s t \<Longrightarrow> sall (keeps s) (do_write_message e t)"
  by (simp add: do_write_message_def)

lemma token_keeps: "sall (keeps s) (run_token t s)"
  by (cases t) (simp_all add: run_token_def data_keeps)

subsection \<open>Destructors and constructors\<close>

lemma account_destroy [simp]: "account (destroy_op e i s) = account s"
  by (simp add: account_def)

lemma account_release [simp]: "account (release e s) = account s"
  by (simp add: account_def)

lemma dtor_fds:
  assumes "fds_of obj \<subseteq># mset (open_fds s)"
  shows "mset (open_fds (derived_dtor obj s)) = mset (open_fds s) - fds_of obj"
proof -
  have frame: "open_fds (close_data_socket t) = open_fds t" "open_fds (close_fd fd t) = remove1 fd (open_fds t)"
    for t :: "'a sess" and fd by (simp_all add: close_data_socket_def close_fd_def)
  show ?thesis
    by (cases "(obj, s)" rule: derived_dtor.cases)
       (auto simp: frame Let_def diff_diff_add_mset add.commute add_mset_commute)
qed

lemma destroy_balanced:
  assumes "op_inv n0 s" and "balanced s" shows "balanced (destroy_op e i s)"
proof (cases "lookup_op i s")
  case None
  with assms(2) show ?thesis by (simp add: destroy_op_dead)
next
  case (Some obj)
  let ?rest = "filter (\<lambda>(j, x). j \<noteq> i) (operators s)"
  have split: "owned_fds s = fds_of obj + fds_in ?rest"
    using assms(1) Some by (intro fds_in_filter) (simp_all add: op_inv_def lookup_op_def)
  have "fds_of obj \<subseteq># mset (open_fds s)" using assms(2) split by (simp add: balanced_def)
  then have "mset (open_fds (derived_dtor obj s)) = fds_in ?rest"
    using assms(2) split by (simp add: dtor_fds balanced_def)
  moreover have "open_fds (destroy_op e i s) = open_fds (derived_dtor obj s)"
    by (simp add: destroy_op_def Some Let_def basic_op_dtor_def update_idle_timer_def cancel_idle_timer_def)
  ultimately show ?thesis by (simp add: balanced_def destroy_op_operators)
qed

lemma release_balanced:
  assumes "op_inv n0 s" and "balanced s" shows "balanced (release e s)"
proof -
  have "balanced (fold (destroy_op e) is s)"
    if "op_inv n0 s" "balanced s" "\<forall>i \<in> set is. \<not> referenced i s" for "is" s
    using that
  proof (induction "is" arbitrary: s)
    case (Cons i "is")
    then show ?case
      using op_inv_destroy [of n0 s i e] destroy_balanced [of n0 s e i] referenced_cong [of "destroy_op e i s" s]
      by simp
  qed simp
  with assms show ?thesis by (simp add: release_def unreferenced_def)
qed

text \<open>The system never gives out the descriptor of the standard input, which stays open.\<close>

definition proper_fds :: "'w env \<Rightarrow> bool" where
  "proper_fds e \<longleftrightarrow> (\<forall>w p. os_open_read (sys e) w p \<noteq> 0 \<and> fst (os_open_write (sys e) w p) \<noteq> 0) \<and>
     (\<forall>w r wr. os_pipe (sys e) w = Some (r, wr) \<longrightarrow> 0 < r \<and> 0 < wr)"

lemma proper_fdsD:
  assumes "proper_fds e"
  shows "os_open_read (sys e) w p \<noteq> 0" and "os_open_write (sys e) w p = (fd, w') \<Longrightarrow> fd \<noteq> 0"
    and "os_pipe (sys e) w = Some (r, wr) \<Longrightarrow> 0 < r" and "os_pipe (sys e) w = Some (r, wr) \<Longrightarrow> 0 < wr"
  using assms by (auto simp: proper_fds_def dest: spec [of _ w]) (metis fst_conv)

lemma open_fd_simps [simp]:
  "open_fds (open_fd fd s) = (if fd < 0 then open_fds s else fd # open_fds s)"
  "operators (open_fd fd s) = operators s" "account (open_fd fd s) = account s"
  "verified (open_fd fd s) = verified s" "user (open_fd fd s) = user s"
  "is_anonymous (open_fd fd s) = is_anonymous s" "current_path (open_fd fd s) = current_path s"
  "transport (open_fd fd s) = transport s" "world (open_fd fd s) = world s"
  by (simp_all add: open_fd_def account_def)

lemma send_ctor_fds:
  assumes "proper_fds e"
  shows "sall (\<lambda>(f, t). mset (open_fds t) = mset (open_fds s) + fds_of (Sending f) \<and>
           operators t = operators s \<and> account t = account s) (send_file_ctor e s)"
  using assms unfolding send_file_ctor_def Let_def
  by (auto simp: write_message_eq proper_fds_def account_def intro!: sall_any)

lemma recv_ctor_fds:
  assumes "proper_fds e"
  shows "sall (\<lambda>(f, t). mset (open_fds t) = mset (open_fds s) + fds_of (Receiving f) \<and>
           operators t = operators s \<and> account (t\<lparr>world := world s\<rparr>) = account s) (recv_file_ctor e s)"
proof -
  let ?t = "get_target_path s (body (request s))"
  obtain fd w where o: "os_open_write (sys e) (world s) ?t = (fd, w)" by (cases "os_open_write (sys e) (world s) ?t")
  then have fd: "fd \<noteq> 0" by (rule proper_fdsD(2) [OF assms])
  show ?thesis
  proof (cases "os_pipe (sys e) w")
    case None
    with fd show ?thesis
      unfolding recv_file_ctor_def Let_def
      by (auto simp: write_message_eq o account_def intro!: sall_any)
  next
    case (Some p)
    obtain r wr where "p = (r, wr)" by (cases p)
    with Some have p: "os_pipe (sys e) w = Some (r, wr)" "0 < r" "0 < wr" using proper_fdsD(3,4) [OF assms] by simp_all
    with fd show ?thesis
      unfolding recv_file_ctor_def Let_def
      by (auto simp: write_message_eq o account_def intro!: sall_any)
  qed
qed

subsection \<open>Descriptors over one completion\<close>

lemma balanced_keeps: "keeps s t \<Longrightarrow> balanced t = balanced s"
  by (simp add: keeps_def balanced_def)

lemma balanced_control: "control_effect s t \<Longrightarrow> balanced t = balanced s"
  by (auto simp: control_effect_def quiet_def balanced_def)

lemma balanced_cong: "open_fds t = open_fds s \<Longrightarrow> operators t = operators s \<Longrightarrow> balanced t = balanced s"
  by (simp add: balanced_def)

lemma balanced_simps [simp]:
  "balanced (enqueue b m s) = balanced s" "balanced (add_pending h s) = balanced s"
  "balanced (s\<lparr>message_queue := q, dropped := d\<rparr>) = balanced s"
  "balanced (s\<lparr>message_queue := q\<rparr>) = balanced s" "balanced (s\<lparr>pending := hs\<rparr>) = balanced s"
  "balanced (s\<lparr>sent := l\<rparr>) = balanced s" "balanced (s\<lparr>buf := x, request := r\<rparr>) = balanced s"
  "balanced (s\<lparr>buf := x\<rparr>) = balanced s" "balanced (s\<lparr>keep_cancelled := k\<rparr>) = balanced s"
  "balanced (restart_if_idle e s) = balanced s" "balanced (expires_never s) = balanced s"
  "balanced (close s) = balanced s" "balanced (drop_session s) = balanced s"
  "balanced (s\<lparr>world := w\<rparr>) = balanced s"
  by (simp_all add: balanced_def add_pending_def expires_never_def close_def drop_session_def)

lemma sall_keeps_balanced: "balanced s \<Longrightarrow> sall (keeps s) m \<Longrightarrow> sall balanced m"
  by (erule sall_mono) (simp add: balanced_keeps)

lemma construct_balanced:
  assumes "proper_fds e" and "balanced s"
  shows "sall (\<lambda>(i, t). balanced t) (construct e c s)"
proof -
  let ?s0 = "basic_op_ctor (s\<lparr>next_op := Suc (next_op s)\<rparr>)"
  have b: "mset (open_fds ?s0) = owned_fds ?s0" using assms(2) by (simp add: balanced_def basic_op_ctor_def)
  have "sall (\<lambda>(i, t). balanced t) (sbind (send_file_ctor e ?s0)
          (\<lambda>(f, t). Inr (next_op s, t\<lparr>operators := operators t @ [(next_op s, Sending f)]\<rparr>)))"
    using send_ctor_fds [OF assms(1), of ?s0] b by (auto simp: balanced_def elim!: sall_mono)
  moreover have "sall (\<lambda>(i, t). balanced t) (sbind (recv_file_ctor e ?s0)
          (\<lambda>(f, t). Inr (next_op s, t\<lparr>operators := operators t @ [(next_op s, Receiving f)]\<rparr>)))"
    using recv_ctor_fds [OF assms(1), of ?s0] b
    by (auto simp: balanced_def simp del: fds_of.simps elim!: sall_mono)
  moreover have "balanced (?s0\<lparr>operators := operators ?s0 @ [(next_op s, Plain k)]\<rparr>)" for k
    using b by (simp add: balanced_def)
  ultimately show ?thesis
    unfolding construct_def Let_def by (cases c) (simp_all del: sall_bind)
qed

lemma do_operation_balanced:
  assumes "op_inv n0 s" and "balanced s"
  shows "sall balanced (do_operation e i s)"
proof (cases "lookup_op i s")
  case (Some obj)
  show ?thesis
  proof (cases obj)
    case (Plain c)
    show ?thesis
    proof (cases "c = ListOp")
      case True
      with Some Plain assms(2) fetch_keeps(1) [of s e i] show ?thesis
        by (simp add: do_operation_def list_op_def sall_keeps_balanced)
    next
      case False
      show ?thesis
        using assms(2) do_operation_plain [of i s c e] Some Plain False
        by (intro sallI) (simp add: balanced_control)
    qed
  next
    case (Sending f)
    show ?thesis
      using Some Sending transfer_start_keeps(1) [OF assms(1), of i f e] assms(2)
      by (simp add: do_operation_def sall_keeps_balanced)
  next
    case (Receiving f)
    show ?thesis
      using Some Receiving transfer_start_keeps(2) [OF assms(1), of i f e] assms(2)
      by (simp add: do_operation_def sall_keeps_balanced)
  qed
qed (simp add: do_operation_def)

lemma run_op_balanced:
  assumes "proper_fds e" and "op_inv n0 s" and "balanced s"
  shows "sall balanced (run_op e c s)"
proof -
  have "sall (\<lambda>(i, t). op_inv n0 t \<and> balanced t) (construct e c s)"
    using sall_conj [OF op_inv_construct [OF assms(2)] construct_balanced [OF assms(1,3)], of c]
    by (auto elim!: sall_mono)
  moreover have "sall (\<lambda>u. balanced (release e u)) (do_operation e i t)"
    if "op_inv n0 t" "balanced t" for i t
    using sall_conj [OF grows_op_inv [OF do_operation_grows [OF that(1)]] do_operation_balanced [OF that], of e i]
    by (auto elim!: sall_mono intro: release_balanced)
  ultimately show ?thesis
    unfolding run_op_def by (auto elim!: sall_mono split: prod.splits)
qed

lemma handle_read_balanced:
  assumes "proper_fds e" and "op_inv n0 s" and "balanced s"
  shows "sall balanced (handle_read e n s)"
proof -
  have "sall (\<lambda>(b, t). balanced t) (dispatch_task e t)" if "op_inv n0 t" "balanced t" for t
    using run_op_balanced [OF assms(1) that] that(2)
    by (auto simp: dispatch_task_def reply_eq split: option.split)
  then have d: "sall (\<lambda>(b, u). balanced (if \<not> b then restart_if_idle e u else u)) (dispatch_task e t)"
    if "op_inv n0 t" "balanced t" for t
    by (rule sall_mono) (use that in auto)
  obtain built req where p: "parse_line (take n (buf s)) (request s) = (built, req)"
    by (cases "parse_line (take n (buf s)) (request s)")
  let ?s1 = "s\<lparr>buf := drop n (buf s), request := req\<rparr>"
  have "op_inv n0 ?s1" using assms(2) by (subst op_inv_cong [of _ s]) simp_all
  moreover have "balanced ?s1" using assms(3) by simp
  ultimately show ?thesis
    using d [of ?s1] by (auto simp: handle_read_def p Let_def elim!: sall_mono split: prod.splits)
qed

lemma on_read_balanced:
  assumes "proper_fds e" and "op_inv n0 s" and "balanced s"
  shows "sall balanced (on_read e s)"
proof -
  let ?t = "expires_never (s\<lparr>buf := buf s @ chunk e\<rparr>)"
  have "op_inv n0 ?t" using assms(2) by (subst op_inv_never, subst op_inv_cong [of _ s]) simp_all
  moreover have "balanced ?t" using assms(3) by simp
  ultimately have "sall balanced (handle_read e (read_n e) ?t)" by (rule handle_read_balanced [OF assms(1)])
  then have "sall (\<lambda>u. balanced (do_read u)) (handle_read e (read_n e) ?t)"
    by (rule sall_mono) (simp add: do_read_def)
  then show ?thesis
    using assms(3)
    by (auto simp: on_read_def Let_def split: ec.split)
qed

lemma on_write_balanced:
  assumes "op_inv n0 s" and "balanced s"
  shows "sall balanced (on_write e s)"
proof (cases "ec_of e = Success \<and> message_queue s \<noteq> []")
  case False
  have "op_inv n0 (s\<lparr>message_queue := [], dropped := x\<rparr>)" for x using assms(1) by (simp add: op_inv_def)
  then have "balanced (release e (s\<lparr>message_queue := [], dropped := x\<rparr>))" for x
    using assms(2) by (auto intro!: release_balanced [of n0])
  with False show ?thesis by (auto simp: on_write_def split: list.split)
next
  case True
  then obtain b t ms where ms: "message_queue s = (b, t) # ms" by (cases "message_queue s") auto
  let ?s1 = "s\<lparr>sent := sent s @ [b]\<rparr>"
  have i: "op_inv n0 ?s1" using assms(1) by (subst op_inv_cong [of _ s]) simp_all
  moreover have "token_fits (map_of (operators ?s1)) t" using assms(1) ms by (auto simp: op_inv_def)
  ultimately have "sall (op_inv n0) (run_token t ?s1)" by (intro grows_op_inv [OF run_token_grows])
  moreover have "sall balanced (run_token t ?s1)"
    using assms(2) by (intro sall_keeps_balanced [OF _ token_keeps]) simp
  ultimately have "sall (\<lambda>u. op_inv n0 u \<and> balanced u) (run_token t ?s1)" by (rule sall_conj)
  then have "sall (\<lambda>u. sall balanced (do_write_message e (release e (u\<lparr>message_queue := tl (message_queue u)\<rparr>))))
     (run_token t ?s1)"
  proof (rule sall_mono)
    fix u :: "'a sess" assume u: "op_inv n0 u \<and> balanced u"
    then have "balanced (release e (u\<lparr>message_queue := tl (message_queue u)\<rparr>))"
      by (intro release_balanced [of n0]) (auto simp: op_inv_pop)
    then show "sall balanced (do_write_message e (release e (u\<lparr>message_queue := tl (message_queue u)\<rparr>)))"
      by (rule sall_keeps_balanced) (rule do_write_keeps, simp)
  qed
  with True ms show ?thesis by (simp add: on_write_def)
qed

lemma complete_balanced:
  assumes "proper_fds e" and "op_inv n0 s" and "balanced s" and "h \<in> set (pending s)"
  shows "sall balanced (complete e h s)"
proof -
  let ?s = "s\<lparr>pending := remove1 h (pending s)\<rparr>"
  have i: "op_inv n0 ?s" by (rule op_inv_taken [OF assms(2)])
  have b: "balanced ?s" using assms(3) by simp
  note k = sall_keeps_balanced [OF b]
  have "sall balanced (on_banner e x ?s)" "sall balanced (on_idle e ?s)" for x
    by (rule k, simp add: on_banner_def on_idle_def start_idle_timer_def do_read_def)+
  then have "sall balanced (handler_body e h ?s)"
    using on_read_balanced [OF assms(1) i b] on_write_balanced [OF i b] b
      k [OF accept_keeps] k [OF send_deal_keeps [OF i]] k [OF recv_deal_keeps [OF i]]
      k [OF data_keeps(5) [OF keeps_simps(1)]]
    by (cases h) (auto simp: handler_body_def)
  then have "sall (\<lambda>t. op_inv n0 t \<and> balanced t) (handler_body e h ?s)"
    by (intro sall_conj handler_body_op_inv [OF i fits_taken [OF assms(2,4)]])
  then have "sall (\<lambda>t. balanced (drop_session (release e t))) (handler_body e h ?s)"
    by (rule sall_mono) (auto dest: release_balanced [of n0])
  then show ?thesis by (simp add: complete_def)
qed

lemma started_balanced: "started n0 s \<Longrightarrow> balanced s"
  by (auto simp: started_def new_session_def start_def new_context_def add_pending_def Let_def balanced_def)

lemma completion_balanced:
  "op_inv n0 s \<Longrightarrow> balanced s \<Longrightarrow> proper_fds e \<Longrightarrow> deliverable h s \<Longrightarrow> complete e h s = Inr t \<Longrightarrow> balanced t"
  using complete_balanced [of e n0 s h] by (simp add: deliverable_def)

interpretation descriptors: session_invariant proper_fds n0 balanced
  by unfold_locales (simp_all add: started_balanced completion_balanced)

end
