(* ===== verification/Transfer_Facts.thy ===== *)
theory Transfer_Facts
  imports Holdings
begin

text \<open>
  What the transfers move: the loops that copy received bytes through the pipe, the slices
  handed to \<^verbatim>\<open>sendfile\<close>, and the facts every live operator keeps from its construction
  to its end.
\<close>

subsection \<open>From the pipe to the file\<close>

text \<open>The writes to the file take all of \<open>n\<close> bytes, each at least one.\<close>

fun drains :: "nat \<Rightarrow> int list \<Rightarrow> bool" where
  "drains n rets =
     (if n = 0 then True
      else case rets of [] \<Rightarrow> False
           | r # rs \<Rightarrow> 1 \<le> r \<and> r \<le> int n \<and> drains (n - nat r) rs)"

declare drains.simps [simp del]

lemma drains_Cons: "drains (Suc n) (r # rs) \<longleftrightarrow> 1 \<le> r \<and> r \<le> int (Suc n) \<and> drains (Suc n - nat r) rs"
  by (subst drains.simps) simp

lemma drain_pipe_all:
  "drains n rets \<Longrightarrow> n \<le> length pipe \<Longrightarrow>
   drain_pipe (int n) pipe out rets = Some (drop n pipe, out @ take n pipe)"
proof (induction rets arbitrary: n pipe out)
  case Nil
  then have "n = 0" by (subst (asm) drains.simps) (simp split: if_splits)
  then show ?case by (simp add: drain_pipe.simps)
next
  case (Cons r rs)
  show ?case
  proof (cases n)
    case 0
    then show ?thesis by (simp add: drain_pipe.simps)
  next
    case (Suc m)
    with Cons.prems(1) have r: "1 \<le> r" "r \<le> int n" "drains (n - nat r) rs" by (simp_all add: drains_Cons)
    let ?k = "nat r"
    have k: "?k \<le> n" "int (n - ?k) = int n - r" using r by auto
    have "drain_pipe (int (n - ?k)) (drop ?k pipe) (out @ take ?k pipe) rs =
        Some (drop (n - ?k) (drop ?k pipe), (out @ take ?k pipe) @ take (n - ?k) (drop ?k pipe))"
      using Cons.IH [OF r(3)] Cons.prems(2) k by simp
    moreover have "take ?k pipe @ take (n - ?k) (drop ?k pipe) = take n pipe"
      using k(1) by (metis le_add_diff_inverse take_add)
    moreover have "drop (n - ?k) (drop ?k pipe) = drop n pipe" using k(1) by simp
    moreover have "drain_pipe (int n) pipe out (r # rs) =
        drain_pipe (int n - r) (drop ?k pipe) (out @ take ?k pipe) rs"
      using Suc by (subst drain_pipe.simps) simp
    ultimately show ?thesis by (simp only: k(2) append_assoc)
  qed
qed

text \<open>
  A failed write is subtracted too, and so raises the counter: the loop then waits for a
  byte that is not in the pipe. \<open>total\<close> is what the writes took.
\<close>

definition total :: "int list \<Rightarrow> int" where
  "total rets = sum_list (map (\<lambda>r. max r 0) rets)"

lemma total_simps [simp]: "total [] = 0" "total (r # rs) = max r 0 + total rs" "total (xs @ ys) = total xs + total ys"
  by (simp_all add: total_def)

lemma total_nonneg: "0 \<le> total rets"
  by (induction rets) simp_all

lemma drain_pipe_behind:
  "\<forall>r \<in> set rets. - 1 \<le> r \<Longrightarrow> total rets < n \<Longrightarrow> drain_pipe n pipe out rets = None"
proof (induction rets arbitrary: n pipe out)
  case (Cons r rs)
  have "total rs < n - r" using Cons.prems(2) by (simp add: max_def split: if_splits)
  moreover have "0 < n" using Cons.prems(2) total_nonneg [of rs] by (simp add: max_def split: if_splits)
  ultimately show ?case using Cons by (subst drain_pipe.simps) simp
qed (simp add: drain_pipe.simps)

lemma drain_pipe_after_error:
  assumes "\<forall>r \<in> set (before @ after). - 1 \<le> r" and "\<forall>r \<in> set before. 1 \<le> r"
    and "total before < n" and "total (before @ after) \<le> n"
  shows "drain_pipe n pipe out (before @ - 1 # after) = None"
  using assms
proof (induction before arbitrary: n pipe out)
  case Nil
  then have "drain_pipe (n + 1) pipe out after = None" by (intro drain_pipe_behind) simp_all
  with Nil show ?case by (simp add: drain_pipe.simps [of n])
next
  case (Cons r rs)
  then have r: "1 \<le> r" "total rs < n - r" "total (rs @ after) \<le> n - r" by simp_all
  have "0 < n" using r total_nonneg [of rs] by linarith
  with Cons.IH [of "n - r"] Cons.prems r show ?case by (simp add: drain_pipe.simps [of n])
qed

subsection \<open>From the socket through the pipe\<close>

text \<open>The bytes of the reads before the loop ends, and that every one is drained.\<close>

fun received :: "(splice_in \<times> int list) list \<Rightarrow> string" where
  "received [] = []"
| "received ((SpData d, outs) # rs) = (if d = [] then [] else d @ received rs)"
| "received ((SpIntr, outs) # rs) = received rs"
| "received (_ # rs) = []"

definition all_drain :: "(splice_in \<times> int list) list \<Rightarrow> bool" where
  "all_drain rs \<longleftrightarrow> (\<forall>(r, outs) \<in> set rs. case r of SpData d \<Rightarrow> drains (length d) outs | _ \<Rightarrow> True)"

fun ends :: "(splice_in \<times> int list) list \<Rightarrow> bool" where
  "ends [] = False"
| "ends ((SpData d, outs) # rs) = (d = [] \<or> ends rs)"
| "ends ((SpIntr, outs) # rs) = ends rs"
| "ends ((SpError, outs) # rs) = False"
| "ends (_ # rs) = True"

lemma splice_loop_copies:
  "all_drain rs \<Longrightarrow> ends rs \<Longrightarrow> splice_loop rs [] out = LoopDone [] (out @ received rs)"
proof (induction rs arbitrary: out rule: ends.induct)
  case (2 d outs rs)
  show ?case
  proof (cases "d = []")
    case False
    have "drains (length d) outs" "all_drain rs" using 2 by (simp_all add: all_drain_def)
    then have "drain_pipe (int (length d)) d out outs = Some ([], out @ d)" by (simp add: drain_pipe_all)
    with 2 False \<open>all_drain rs\<close> show ?thesis by simp
  qed simp
qed (auto simp: all_drain_def)

lemma splice_loop_empties:
  "all_drain rs \<Longrightarrow> splice_loop rs [] out = LoopDone p w \<or> splice_loop rs [] out = LoopError p w \<Longrightarrow>
   p = [] \<and> (\<exists>d. w = out @ d)"
proof (induction rs arbitrary: out rule: ends.induct)
  case (2 d outs rs)
  show ?case
  proof (cases "d = []")
    case False
    have d: "drains (length d) outs" "all_drain rs" using 2 by (simp_all add: all_drain_def)
    then have "drain_pipe (int (length d)) d out outs = Some ([], out @ d)" by (simp add: drain_pipe_all)
    with 2(1) [OF d(2), of "out @ d"] 2(3) False show ?thesis by auto
  qed (use 2 in simp)
qed (auto simp: all_drain_def)

subsection \<open>Slices\<close>

lemma slice_size_unat: "unat (slice_size c) = unat (download_speed_limit_in_kb_per_s c) * 1024 div 10"
proof -
  have "unat (download_speed_limit_in_kb_per_s c) < 2 ^ 16"
    using unsigned_less [of "download_speed_limit_in_kb_per_s c"] by simp
  then have "unat (download_speed_limit_in_kb_per_s c) * 1024 div 10 < 2 ^ 64" by simp
  then show ?thesis by (simp add: slice_size_def time_splice_def unsigned_of_nat take_bit_nat_eq_self)
qed

lemma slice_size_zero: "slice_size c = 0 \<longleftrightarrow> download_speed_limit_in_kb_per_s c = 0"
proof -
  have "slice_size c = 0 \<longleftrightarrow> unat (slice_size c) = 0" by (simp add: unat_eq_0)
  also have "\<dots> \<longleftrightarrow> unat (download_speed_limit_in_kb_per_s c) = 0" unfolding slice_size_unat by auto
  finally show ?thesis by (simp add: unat_eq_0)
qed

definition sized :: "operator \<Rightarrow> bool" where
  "sized x = (case x of Sending f \<Rightarrow> sf_offset f \<le> sf_size f | _ \<Rightarrow> True)"

text \<open>The bytes of one call of \<^verbatim>\<open>sendfile\<close> when the kernel takes up to \<open>n\<close>.\<close>

lemma sendfile_step:
  assumes "sf_offset f \<le> sf_size f" and ret_def: "ret = min n (sendfile_count f limit)"
  shows "unat (sf_offset f + ret) = unat (sf_offset f) + unat ret"
    and "sf_offset f + ret \<le> sf_size f"
    and "limit \<noteq> 0 \<Longrightarrow> ret \<le> limit"
    and "unat (sf_size f - (sf_offset f + ret)) = unat (sf_size f) - unat (sf_offset f) - unat ret"
proof -
  have "ret \<le> sf_size f - sf_offset f" by (simp add: ret_def sendfile_count_def min.coboundedI2)
  then have r: "unat ret \<le> unat (sf_size f) - unat (sf_offset f)"
    using assms(1) by (simp add: word_le_nat_alt unat_sub)
  moreover have o: "unat (sf_offset f) \<le> unat (sf_size f)" using assms(1) by (simp add: word_le_nat_alt)
  moreover have "unat (sf_size f) < 2 ^ LENGTH(64)" by (rule unsigned_less)
  ultimately have "unat (sf_offset f) + unat ret < 2 ^ LENGTH(64)" by linarith
  then show a: "unat (sf_offset f + ret) = unat (sf_offset f) + unat ret" by (rule unat_add_lem [THEN iffD1])
  then show le: "sf_offset f + ret \<le> sf_size f" using r o by (simp add: word_le_nat_alt)
  then show "unat (sf_size f - (sf_offset f + ret)) = unat (sf_size f) - unat (sf_offset f) - unat ret"
    using a by (simp add: unat_sub)
  show "limit \<noteq> 0 \<Longrightarrow> ret \<le> limit" by (simp add: ret_def sendfile_count_def min.coboundedI2)
qed

end
