(* ===== verification/Operator_Facts.thy ===== *)
theory Operator_Facts
  imports Transfer_Facts
begin

text \<open>
  Facts of single operators. \<open>operator_fact\<close> is the contract of a predicate on operators:
  the constructors establish it and each change the code makes to an operator keeps it.
  Then it holds of every operator alive in a reachable session.
\<close>

definition all_ops :: "(operator \<Rightarrow> bool) \<Rightarrow> 'w sess \<Rightarrow> bool" where
  "all_ops P s \<longleftrightarrow> (\<forall>x \<in> snd ` set (operators s). P x)"

lemma all_ops_cong: "operators t = operators s \<Longrightarrow> all_ops P t = all_ops P s"
  by (simp add: all_ops_def)

lemma all_ops_simps [simp]:
  "all_ops P (enqueue b m s) = all_ops P s" "all_ops P (add_pending h s) = all_ops P s"
  "all_ops P (clear_data_socket s) = all_ops P s" "all_ops P (set_data_socket s) = all_ops P s"
  "all_ops P (s\<lparr>acceptor := a\<rparr>) = all_ops P s" "all_ops P (s\<lparr>listings := l\<rparr>) = all_ops P s"
  "all_ops P (s\<lparr>message_queue := q, dropped := d\<rparr>) = all_ops P s"
  "all_ops P (s\<lparr>message_queue := q\<rparr>) = all_ops P s" "all_ops P (s\<lparr>pending := hs\<rparr>) = all_ops P s"
  "all_ops P (s\<lparr>sent := l\<rparr>) = all_ops P s" "all_ops P (s\<lparr>dropped := l\<rparr>) = all_ops P s"
  "all_ops P (s\<lparr>buf := b, request := r\<rparr>) = all_ops P s" "all_ops P (s\<lparr>buf := b\<rparr>) = all_ops P s"
  "all_ops P (s\<lparr>keep_cancelled := k\<rparr>) = all_ops P s" "all_ops P (restart_if_idle e s) = all_ops P s"
  "all_ops P (expires_never s) = all_ops P s" "all_ops P (update_idle_timer e n s) = all_ops P s"
  "all_ops P (cancel_idle_timer s) = all_ops P s" "all_ops P (close s) = all_ops P s"
  "all_ops P (drop_session s) = all_ops P s" "all_ops P (s\<lparr>world := w\<rparr>) = all_ops P s"
  by (simp_all add: all_ops_def add_pending_def clear_data_socket_def set_data_socket_def
        expires_never_def update_idle_timer_def cancel_idle_timer_def close_def drop_session_def)

lemma all_ops_update: "all_ops P s \<Longrightarrow> P x \<Longrightarrow> all_ops P (update_op i x s)"
  by (auto simp: all_ops_def update_op_def split: if_splits)

lemma all_ops_release: "all_ops P s \<Longrightarrow> all_ops P (release e s)"
  by (auto simp: all_ops_def release_operators)

lemma all_ops_control: "control_effect s t \<Longrightarrow> all_ops P t = all_ops P s"
  by (rule all_ops_cong) (rule control_effect_frame)

lemma all_ops_lookup: "all_ops P s \<Longrightarrow> lookup_op i s = Some x \<Longrightarrow> P x"
  by (force simp: all_ops_def lookup_op_def dest: map_of_SomeD)

lemma all_ops_pop: "all_ops P s \<Longrightarrow> sall (all_ops P) (do_write_message e (release e (s\<lparr>message_queue := q\<rparr>)))"
  by (auto simp: do_write_message_def intro!: all_ops_release)

lemma all_ops_started: "started n0 s \<Longrightarrow> all_ops P s"
  by (auto simp: started_def new_session_def start_def new_context_def add_pending_def Let_def all_ops_def)

locale operator_fact =
  fixes E :: "'w env \<Rightarrow> bool" and P :: "operator \<Rightarrow> bool"
  assumes plain: "P (Plain c)"
    and sending: "E e \<Longrightarrow> sall (\<lambda>(f, t). P (Sending f)) (send_file_ctor e s)"
    and receiving: "E e \<Longrightarrow> sall (\<lambda>(f, t). P (Receiving f)) (recv_file_ctor e s)"
    and send_started: "P (Sending f) \<Longrightarrow> P (Sending (f\<lparr>sf_token := True\<rparr>))"
    and recv_started: "P (Receiving g) \<Longrightarrow> P (Receiving (g\<lparr>rf_token := True\<rparr>))"
    and sent_slice: "P (Sending f) \<Longrightarrow>
          P (Sending (f\<lparr>sf_offset := sf_offset f + min n (sendfile_count f limit)\<rparr>))"
    and spliced: "E e \<Longrightarrow> P (Receiving g) \<Longrightarrow>
          splice_loop (splices e) (rf_in_pipe g) (rf_written g) = LoopDone p w \<or>
          splice_loop (splices e) (rf_in_pipe g) (rf_written g) = LoopError p w \<Longrightarrow>
          P (Receiving (g\<lparr>rf_in_pipe := p, rf_written := w\<rparr>))"
begin

lemma constructed: "E e \<Longrightarrow> all_ops P s \<Longrightarrow> sall (\<lambda>(i, t). all_ops P t) (construct e c s)"
proof -
  assume e: "E e" and s: "all_ops P s"
  let ?s0 = "basic_op_ctor (s\<lparr>next_op := Suc (next_op s)\<rparr>)"
  have new: "all_ops P (t\<lparr>operators := operators t @ [(j, x)]\<rparr>)" if "ctor_effect ?s0 t" "P x" for t j x
  proof -
    have "operators t = operators s"
      using that(1) by (auto simp: ctor_effect_def basic_op_ctor_def dest: control_effect_frame(1))
    with s that(2) show ?thesis by (auto simp: all_ops_def)
  qed
  have "sall (\<lambda>(i, t). all_ops P t) (sbind (send_file_ctor e ?s0)
          (\<lambda>(f, t). Inr (next_op s, t\<lparr>operators := operators t @ [(next_op s, Sending f)]\<rparr>)))"
    using sall_conj [OF send_file_ctor_effect sending [OF e], of ?s0] new by (auto elim!: sall_mono)
  moreover have "sall (\<lambda>(i, t). all_ops P t) (sbind (recv_file_ctor e ?s0)
          (\<lambda>(f, t). Inr (next_op s, t\<lparr>operators := operators t @ [(next_op s, Receiving f)]\<rparr>)))"
    using sall_conj [OF recv_file_ctor_effect receiving [OF e], of ?s0] new by (auto elim!: sall_mono)
  moreover have "all_ops P (?s0\<lparr>operators := operators ?s0 @ [(next_op s, Plain k)]\<rparr>)" for k
    by (rule new [OF ctor_effect_refl plain])
  ultimately show ?thesis
    unfolding construct_def Let_def by (cases c) (simp_all del: sall_bind)
qed

lemma fetched: "all_ops P s \<Longrightarrow> sall (all_ops P) (fetch_passive_connection e i s)"
  by (simp add: fetch_passive_connection_def check_data_port_def write_message_eq)

lemma operated:
  assumes "all_ops P s" shows "sall (all_ops P) (do_operation e i s)"
proof (cases "lookup_op i s")
  case (Some x)
  have x: "P x" by (rule all_ops_lookup [OF assms Some])
  show ?thesis
  proof (cases x)
    case (Plain c)
    show ?thesis
    proof (cases "c = ListOp")
      case True
      with Some Plain fetched [OF assms] show ?thesis by (simp add: do_operation_def list_op_def)
    next
      case False
      with Some Plain assms do_operation_plain [of i s c e] show ?thesis
        by (intro sallI) (simp add: all_ops_control)
    qed
  next
    case (Sending f)
    then have "all_ops P (update_op i (Sending (f\<lparr>sf_token := True\<rparr>)) s)"
      using x assms by (auto intro!: all_ops_update send_started)
    with Some Sending assms show ?thesis by (simp add: do_operation_def send_file_op_def fetched)
  next
    case (Receiving g)
    then have "all_ops P (update_op i (Receiving (g\<lparr>rf_token := True\<rparr>)) s)"
      using x assms by (auto intro!: all_ops_update recv_started)
    with Some Receiving assms show ?thesis by (simp add: do_operation_def recv_file_op_def fetched)
  qed
qed (simp add: do_operation_def)

lemma ran: "E e \<Longrightarrow> all_ops P s \<Longrightarrow> sall (all_ops P) (run_op e c s)"
proof -
  assume "E e" "all_ops P s"
  then have "sall (\<lambda>(i, t). all_ops P t) (construct e c s)" by (rule constructed)
  moreover have "all_ops P t \<Longrightarrow> sall (\<lambda>u. all_ops P (release e u)) (do_operation e i t)" for i t
    by (rule sall_mono, rule operated, assumption, rule all_ops_release)
  ultimately show ?thesis unfolding run_op_def by (auto elim!: sall_mono split: prod.splits)
qed

lemma read_handled: "E e \<Longrightarrow> all_ops P s \<Longrightarrow> sall (all_ops P) (handle_read e n s)"
proof -
  assume e: "E e" and s: "all_ops P s"
  obtain built req where p: "parse_line (take n (buf s)) (request s) = (built, req)"
    by (cases "parse_line (take n (buf s)) (request s)")
  let ?s1 = "s\<lparr>buf := drop n (buf s), request := req\<rparr>"
  have "all_ops P ?s1" using s by simp
  then have "sall (\<lambda>(b, t). all_ops P t) (dispatch_task e ?s1)"
    using ran [OF e, of ?s1] by (auto simp: dispatch_task_def reply_eq split: option.split)
  then have "sall (\<lambda>(b, t). all_ops P (if \<not> b then restart_if_idle e t else t)) (dispatch_task e ?s1)"
    by (rule sall_mono) auto
  with s show ?thesis by (auto simp: handle_read_def p Let_def elim!: sall_mono)
qed

lemma token_ran: "all_ops P s \<Longrightarrow> sall (all_ops P) (run_token t s)"
  by (cases t) (auto simp: run_token_def do_send_file_def do_recv_file_def list_send_def split: option.split)

lemma sent: "all_ops P s \<Longrightarrow> sall (all_ops P) (send_deal_event e i limit s)"
proof (cases "lookup_op i s")
  case (Some x)
  assume s: "all_ops P s"
  show ?thesis
  proof (cases x)
    case (Sending f)
    have "all_ops P (update_op i (Sending (f\<lparr>sf_offset := sf_offset f + min n (sendfile_count f limit)\<rparr>)) s)" for n
      using s all_ops_lookup [OF s Some] Sending by (auto intro!: all_ops_update sent_slice)
    with Some Sending s show ?thesis
      by (auto simp: send_deal_event_def Let_def do_send_file_def transfer_completed_def write_message_eq
            split: option.split data_sock.split sendfile_result.split)
  qed (use s in \<open>simp_all add: send_deal_event_def Some\<close>)
qed (simp add: send_deal_event_def)

lemma got: "E e \<Longrightarrow> all_ops P s \<Longrightarrow> sall (all_ops P) (recv_deal_event e i s)"
proof (cases "lookup_op i s")
  case (Some x)
  assume e: "E e" and s: "all_ops P s"
  show ?thesis
  proof (cases x)
    case (Receiving g)
    let ?l = "splice_loop (splices e) (rf_in_pipe g) (rf_written g)"
    have "all_ops P (update_op i (Receiving (g\<lparr>rf_in_pipe := p, rf_written := w\<rparr>)) s)"
      if "?l = LoopDone p w \<or> ?l = LoopError p w" for p w
      using s all_ops_lookup [OF s Some] Receiving by (intro all_ops_update spliced [OF e _ that]) simp_all
    then have "sall (all_ops P) (case ?l of LoopRunning \<Rightarrow> Inl Hang
        | LoopError p w \<Rightarrow> Inr (update_op i (Receiving (g\<lparr>rf_in_pipe := p, rf_written := w\<rparr>)) s)
        | LoopDone p w \<Rightarrow> do_recv_file i (update_op i (Receiving (g\<lparr>rf_in_pipe := p, rf_written := w\<rparr>)) s))"
      by (auto simp: do_recv_file_def split: splice_end.split)
    moreover have "sall (all_ops P) (transfer_completed e s)"
      using s by (simp add: transfer_completed_def write_message_eq)
    ultimately show ?thesis
      using Some Receiving s
      by (auto simp: recv_deal_event_def simp del: sall_if intro!: sall_any split: option.split data_sock.split if_split)
  qed (use s in \<open>simp_all add: recv_deal_event_def Some\<close>)
qed (simp add: recv_deal_event_def)

lemma accepted: "all_ops P s \<Longrightarrow> sall (all_ops P) (on_accept e i s)"
  unfolding on_accept_def Let_def send_connected_def recv_connected_def handle_data_connection_def
  by (auto simp: write_message_eq intro!: sall_any split: option.split operator.split)

lemma written: "all_ops P s \<Longrightarrow> sall (all_ops P) (on_write e s)"
proof -
  assume s: "all_ops P s"
  have "sall (\<lambda>u. sall (all_ops P) (do_write_message e (release e (u\<lparr>message_queue := tl (message_queue u)\<rparr>))))
     (run_token t (s\<lparr>sent := sent s @ [b]\<rparr>))" for t b
    using s by (intro sall_mono [OF token_ran]) (simp_all add: all_ops_pop)
  with s show ?thesis
    by (auto simp: on_write_def all_ops_release split: list.split)
qed

lemma handled: "E e \<Longrightarrow> all_ops P s \<Longrightarrow> sall (all_ops P) (handler_body e h s)"
proof -
  assume e: "E e" and s: "all_ops P s"
  have "sall (\<lambda>u. all_ops P (do_read u)) (handle_read e n (expires_never (s\<lparr>buf := b\<rparr>)))" for n b
    using s by (intro sall_mono [OF read_handled [OF e]]) (simp_all add: do_read_def)
  with s show ?thesis
    by (cases h)
       (auto simp: handler_body_def on_banner_def on_read_def on_idle_def Let_def start_idle_timer_def
          do_read_def list_written_def transfer_completed_def write_message_eq written accepted sent got [OF e]
          split: ec.split)
qed

lemma completed:
  assumes "all_ops P s" and "E e" and "complete e h s = Inr t" shows "all_ops P t"
proof -
  have "sall (\<lambda>u. all_ops P (drop_session (release e u))) (handler_body e h (s\<lparr>pending := remove1 h (pending s)\<rparr>))"
    using assms(1) by (intro sall_mono [OF handled [OF assms(2)]]) (simp_all add: all_ops_release)
  with assms(3) show ?thesis by (auto simp: complete_def sbind_Inr_iff split: if_splits)
qed

sublocale lifted: session_invariant E n0 "all_ops P" for n0
  by unfold_locales (auto intro: all_ops_started completed)

lemma of_live_operators: "reachable E n0 s \<Longrightarrow> lookup_op i s = Some x \<Longrightarrow> P x"
  by (rule all_ops_lookup [OF lifted.in_reachable])

end

subsection \<open>Two facts of the transfers\<close>

text \<open>The offset of a transfer never passes the size of its file.\<close>

interpretation sizes: operator_fact E sized
proof unfold_locales
  show "sall (\<lambda>(f, t). sized (Sending f)) (send_file_ctor e s)" for e :: "'a env" and s
    unfolding send_file_ctor_def Let_def by (auto simp: write_message_eq sized_def intro!: sall_any)
  show "sall (\<lambda>(f, t). sized (Receiving f)) (recv_file_ctor e s)" for e :: "'a env" and s
    by (rule sall_any) (auto simp: sized_def)
  show "sized (Sending f) \<Longrightarrow> sized (Sending (f\<lparr>sf_offset := sf_offset f + min n (sendfile_count f limit)\<rparr>))"
    for f n limit
    using sendfile_step(2) [of f "min n (sendfile_count f limit)" n limit] by (simp add: sized_def)
qed (auto simp: sized_def)

text \<open>
  While every read from the socket is drained, the pipe of an upload is empty between two
  events.
\<close>

definition draining :: "'w env \<Rightarrow> bool" where
  "draining e \<longleftrightarrow> all_drain (splices e)"

definition pipe_empty :: "operator \<Rightarrow> bool" where
  "pipe_empty x = (case x of Receiving f \<Rightarrow> rf_in_pipe f = [] | _ \<Rightarrow> True)"

interpretation pipes: operator_fact draining pipe_empty
proof unfold_locales
  show "sall (\<lambda>(f, t). pipe_empty (Receiving f)) (recv_file_ctor e s)" for e :: "'a env" and s
    unfolding recv_file_ctor_def Let_def
    by (auto simp: write_message_eq pipe_empty_def intro!: sall_any split: prod.split option.split)
  show "sall (\<lambda>(f, t). pipe_empty (Sending f)) (send_file_ctor e s)" for e :: "'a env" and s
    by (rule sall_any) (auto simp: pipe_empty_def)
  show "pipe_empty (Receiving (g\<lparr>rf_in_pipe := p, rf_written := w\<rparr>))"
    if "draining e" "pipe_empty (Receiving g)"
      "splice_loop (splices e) (rf_in_pipe g) (rf_written g) = LoopDone p w \<or>
       splice_loop (splices e) (rf_in_pipe g) (rf_written g) = LoopError p w" for e :: "'a env" and g p w
    using that splice_loop_empties [of "splices e" "rf_written g" p w] by (auto simp: draining_def pipe_empty_def)
qed (auto simp: pipe_empty_def)

end
