(* ===== verification/Transfer_Runs.thy ===== *)
theory Transfer_Runs
  imports Operator_Facts
begin

text \<open>
  Single events of the transfers and sequences of them: what one slice of a download and
  one readiness event of an upload do, that a download ends, and where a transfer makes no
  progress.
\<close>

lemma add_pending_frame [simp]:
  "lookup_op i (add_pending h s) = lookup_op i s" "data_socket (add_pending h s) = data_socket s"
  "submitted (add_pending h s) = submitted s" "pending (add_pending h s) = pending s @ [h]"
  by (simp_all add: lookup_op_def add_pending_def)

subsection \<open>One slice\<close>

definition left_to_send :: "send_file \<Rightarrow> nat" where
  "left_to_send f = unat (sf_size f) - unat (sf_offset f)"

text \<open>What a call of \<^verbatim>\<open>sendfile\<close> moves: what is left, within the limit and what the kernel takes.\<close>

definition slice_bytes :: "u64 \<Rightarrow> u64 \<Rightarrow> send_file \<Rightarrow> nat" where
  "slice_bytes limit n f =
     min (unat n) (if limit = 0 then left_to_send f else min (left_to_send f) (unat limit))"

lemma unat_min: "unat (min a b) = min (unat a) (unat (b :: 'a :: len word))"
  by (simp add: min_def word_le_nat_alt)

lemma sendfile_bytes:
  assumes "sf_offset f \<le> sf_size f"
  shows "unat (min n (sendfile_count f limit)) = slice_bytes limit n f"
proof -
  have "unat (sf_size f - sf_offset f) = left_to_send f"
    using assms by (simp add: left_to_send_def unat_sub)
  then show ?thesis by (simp add: slice_bytes_def sendfile_count_def unat_min)
qed

text \<open>A transfer that is ready to move bytes.\<close>

definition can_send :: "opid \<Rightarrow> send_file \<Rightarrow> 'w sess \<Rightarrow> bool" where
  "can_send i f s \<longleftrightarrow> lookup_op i s = Some (Sending f) \<and> sf_offset f \<le> sf_size f \<and> sf_token f \<and>
     data_socket s = Some SockOpen"

definition advanced :: "u64 \<Rightarrow> u64 \<Rightarrow> send_file \<Rightarrow> send_file" where
  "advanced limit n f = f\<lparr>sf_offset := sf_offset f + min n (sendfile_count f limit)\<rparr>"

lemma advanced_left:
  assumes "sf_offset f \<le> sf_size f"
  shows "sf_offset (advanced limit n f) \<le> sf_size (advanced limit n f)"
    and "left_to_send (advanced limit n f) = left_to_send f - slice_bytes limit n f"
proof -
  let ?r = "min n (sendfile_count f limit)"
  note st = sendfile_step [OF assms refl, of n limit]
  show "sf_offset (advanced limit n f) \<le> sf_size (advanced limit n f)" using st(2) by (simp add: advanced_def)
  show "left_to_send (advanced limit n f) = left_to_send f - slice_bytes limit n f"
    using st(1) sendfile_bytes [OF assms, of n limit] by (simp add: advanced_def left_to_send_def)
qed

lemma finished_iff:
  assumes "sf_offset f \<le> sf_size f"
  shows "0 < sf_size f - sf_offset f \<longleftrightarrow> 0 < left_to_send f"
proof -
  have "unat (sf_size f - sf_offset f) = left_to_send f" using assms by (simp add: left_to_send_def unat_sub)
  then show ?thesis by (metis unat_gt_0 word_gt_0)
qed

lemma can_send_advanced:
  assumes "can_send i f s"
  shows "can_send i (advanced limit n f) (add_pending h (update_op i (Sending (advanced limit n f)) s))"
proof -
  let ?g = "advanced limit n f"
  have f: "lookup_op i s = Some (Sending f)" "sf_offset f \<le> sf_size f" "sf_token f" "data_socket s = Some SockOpen"
    using assms by (simp_all add: can_send_def)
  have "sf_token ?g = sf_token f" by (simp add: advanced_def)
  then show ?thesis
    using f advanced_left(1) [OF f(2), of limit n] by (simp add: can_send_def lookup_update_op)
qed

lemma slice_sent:
  assumes "can_send i f s" and "ec_of e = Success" "sendfile_res e = SfBytes n"
  shows "send_deal_event e i limit s =
     (let t = update_op i (Sending (advanced limit n f)) s
      in if left_to_send f = slice_bytes limit n f then
           Inr (clear_data_socket (enqueue (get_code_string transfer_complete) NoToken t))
         else Inr (add_pending (if limit = 0 then OnSendReady i else OnLimiter i) t))"
proof -
  have f: "lookup_op i s = Some (Sending f)" "sf_offset f \<le> sf_size f" "sf_token f" "data_socket s = Some SockOpen"
    using assms(1) by (simp_all add: can_send_def)
  let ?g = "advanced limit n f"
  have g: "0 < sf_size ?g - sf_offset ?g \<longleftrightarrow> left_to_send f \<noteq> slice_bytes limit n f"
    using finished_iff [OF advanced_left(1) [OF f(2)], of limit n] advanced_left(2) [OF f(2), of limit n]
    by (auto simp: slice_bytes_def)
  have "send_deal_event e i limit s =
      (let t = update_op i (Sending ?g) s
       in if 0 < sf_size ?g - sf_offset ?g then
            (if limit = 0 then do_send_file i t else Inr (add_pending (OnLimiter i) t))
          else if sf_token ?g then transfer_completed e t else Inr t)"
    using f assms(2,3) by (simp add: send_deal_event_def Let_def advanced_def)
  also have "\<dots> = (let t = update_op i (Sending ?g) s
      in if left_to_send f = slice_bytes limit n f then
           Inr (clear_data_socket (enqueue (get_code_string transfer_complete) NoToken t))
         else Inr (add_pending (if limit = 0 then OnSendReady i else OnLimiter i) t))"
    unfolding g using f by (simp add: Let_def do_send_file_def transfer_completed_def write_message_eq)
       (simp add: advanced_def)
  finally show ?thesis .
qed

subsection \<open>A whole download\<close>

text \<open>Events of a download in order, each with the limit of its configuration.\<close>

fun send_events :: "'w env list \<Rightarrow> opid \<Rightarrow> 'w sess \<Rightarrow> crash + 'w sess" where
  "send_events [] i s = Inr s"
| "send_events (e # es) i s = sbind (send_deal_event e i (slice_size (cfg e)) s) (send_events es i)"

definition takes_bytes :: "'w env \<Rightarrow> bool" where
  "takes_bytes e \<longleftrightarrow> ec_of e = Success \<and> (\<exists>n. sendfile_res e = SfBytes n \<and> n \<noteq> 0)"

lemma send_events_finish:
  assumes "can_send i f s" and "\<forall>e \<in> set es. takes_bytes e" and "left_to_send f \<le> length es" "es \<noteq> []"
  shows "\<exists>k t. k \<le> length es \<and> send_events (take k es) i s = Inr t \<and>
           submitted t = submitted s @ [get_code_string transfer_complete] \<and> data_socket t = None"
  using assms
proof (induction es arbitrary: s f)
  case (Cons e es)
  let ?limit = "slice_size (cfg e)"
  obtain n where e: "ec_of e = Success" "sendfile_res e = SfBytes n" "n \<noteq> 0"
    using Cons.prems(2) by (auto simp: takes_bytes_def)
  note one = slice_sent [OF Cons.prems(1) e(1,2), of ?limit]
  show ?case
  proof (cases "left_to_send f = slice_bytes ?limit n f")
    case True
    with one show ?thesis by (intro exI [of _ 1]) (simp add: Let_def clear_data_socket_def)
  next
    case False
    let ?g = "advanced ?limit n f"
    let ?t = "add_pending (if ?limit = 0 then OnSendReady i else OnLimiter i) (update_op i (Sending ?g) s)"
    have o: "sf_offset f \<le> sf_size f" using Cons.prems(1) by (simp add: can_send_def)
    have "0 < unat n" "?limit \<noteq> 0 \<Longrightarrow> 0 < unat ?limit" using e(3) by (simp_all add: unat_gt_0)
    then have b: "0 < slice_bytes ?limit n f" using False by (auto simp: slice_bytes_def split: if_splits)
    then have l: "left_to_send ?g < left_to_send f"
      using advanced_left(2) [OF o, of ?limit n] False by (auto simp: slice_bytes_def split: if_splits)
    have c: "can_send i ?g ?t" by (rule can_send_advanced [OF Cons.prems(1)])
    have "left_to_send ?g \<noteq> 0" using advanced_left(2) [OF o, of ?limit n] False by (auto simp: slice_bytes_def)
    then have "left_to_send ?g \<le> length es" "es \<noteq> []" using l Cons.prems(3) by auto
    from Cons.IH [OF c _ this] Cons.prems(2) obtain k t where k: "k \<le> length es" "send_events (take k es) i ?t = Inr t"
      "submitted t = submitted ?t @ [get_code_string transfer_complete]" "data_socket t = None" by auto
    have "send_events (take (Suc k) (e # es)) i s = Inr t" using one False k(2) by (simp add: Let_def)
    with k(1,3,4) show ?thesis by (intro exI [of _ "Suc k"] exI [of _ t]) (simp add: add_pending_def)
  qed
qed simp

text \<open>A file that has become shorter: \<^verbatim>\<open>sendfile\<close> moves nothing and the operator waits again.\<close>

lemma no_progress:
  assumes "can_send i f s" and "ec_of e = Success" "sendfile_res e = SfBytes 0" "0 < left_to_send f"
  shows "send_deal_event e i limit s = Inr (add_pending (if limit = 0 then OnSendReady i else OnLimiter i) (update_op i (Sending f) s))"
proof -
  have "advanced limit 0 f = f" by (simp add: advanced_def)
  moreover have "slice_bytes limit 0 f = 0" by (simp add: slice_bytes_def)
  ultimately show ?thesis using slice_sent [OF assms(1-3), of limit] assms(4) by (simp add: Let_def)
qed

subsection \<open>Uploads\<close>

lemma recv_event_copies:
  assumes "lookup_op i s = Some (Receiving f)" "rf_in_pipe f = []" "data_socket s = Some SockOpen"
    and "ec_of e = Success" "available e = Inr n" "n \<noteq> 0" and "draining e" "ends (splices e)"
  shows "recv_deal_event e i s = Inr (add_pending (OnRecvReady i)
           (update_op i (Receiving (f\<lparr>rf_written := rf_written f @ received (splices e)\<rparr>)) s))"
proof -
  have "splice_loop (splices e) (rf_in_pipe f) (rf_written f) = LoopDone [] (rf_written f @ received (splices e))"
    using splice_loop_copies [of "splices e" "rf_written f"] assms(2,7,8) by (simp add: draining_def)
  with assms show ?thesis by (simp add: recv_deal_event_def do_recv_file_def) (cases f; simp)
qed

lemma recv_event_ends:
  assumes "lookup_op i s = Some (Receiving f)" "rf_token f" "data_socket s = Some SockOpen"
    and "ec_of e = Success" "available e = Inr 0"
  shows "recv_deal_event e i s = Inr (clear_data_socket (enqueue (get_code_string transfer_complete) NoToken s))"
  using assms by (simp add: recv_deal_event_def transfer_completed_def write_message_eq)

lemma recv_event_hangs:
  assumes "lookup_op i s = Some (Receiving f)" "data_socket s = Some SockOpen"
    and "ec_of e = Success" "available e = Inr n" "n \<noteq> 0"
    and "splices e = (SpData d, before @ - 1 # after) # rest" "d \<noteq> []"
    and "\<forall>r \<in> set (before @ after). - 1 \<le> r" "\<forall>r \<in> set before. 1 \<le> r"
    and "total before < int (length d)" "total (before @ after) \<le> int (length d)"
  shows "recv_deal_event e i s = Inl Hang"
proof -
  have "drain_pipe (int (length d)) (rf_in_pipe f @ d) (rf_written f) (before @ - 1 # after) = None"
    using assms(8-11) by (rule drain_pipe_after_error)
  with assms show ?thesis by (simp add: recv_deal_event_def)
qed

end
