(* ===== verification/Process.thy ===== *)
theory Process
  imports Server Crash_Facts Transfer_Runs
begin

text \<open>
  The whole process: the acceptor on the main thread, the workers, and the sessions of all
  clients over one file system and one client counter. A worker is a thread that runs the
  handlers of its sessions one at a time. An exception that leaves a handler leaves
  \<^verbatim>\<open>io_context.run()\<close> and ends the process, on the main thread as on a worker; a handler
  that does not return takes its worker away from all sessions of that worker.

  Two workers may run handlers at the same time. A step here is a whole handler, so the
  calls that one handler makes to the file system are not separated by those of another.
\<close>

subsection \<open>State and steps\<close>

record 'w process =
  srv :: "'w server"
  files :: 'w
  stuck :: "nat set"
  ended :: "crash option"

text \<open>The handler \<open>h\<close> of the session \<open>k\<close>, run by its worker.\<close>

definition serve :: "'w env \<Rightarrow> nat \<Rightarrow> handler \<Rightarrow> 'w process \<Rightarrow> 'w process" where
  "serve e k h p =
     (case assigned (srv p) ! k of (wk, x) \<Rightarrow>
        (case complete e h (x\<lparr>world := files p\<rparr>) of
           Inl c \<Rightarrow> if c = Hang then p\<lparr>stuck := insert wk (stuck p)\<rparr> else p\<lparr>ended := Some c\<rparr>
         | Inr y \<Rightarrow>
             let s = (srv p)\<lparr>assigned := (assigned (srv p))[k := (wk, y)]\<rparr>
             in p\<lparr>srv := if destroyed y then session_gone s else s, files := world y\<rparr>))"

text \<open>A completed accept, run by the main thread.\<close>

definition admit :: "config \<Rightarrow> bool \<Rightarrow> crash + string \<Rightarrow> path \<Rightarrow> u32 \<Rightarrow> 'w process \<Rightarrow> 'w process" where
  "admit c accepted remote home n0 p =
     (case on_client c accepted remote home n0 (files p) (srv p) of
        Inl x \<Rightarrow> p\<lparr>ended := Some x\<rparr>
      | Inr s \<Rightarrow> p\<lparr>srv := s\<rparr>)"

text \<open>
  The environment of a handler: \<open>E\<close> holds of it, its configuration is that of the process,
  and the number of clients it sees is the counter. The peer's address can only fail with a
  \<^verbatim>\<open>system_error\<close>.
\<close>

definition env_in :: "('w env \<Rightarrow> bool) \<Rightarrow> config \<Rightarrow> 'w process \<Rightarrow> 'w env \<Rightarrow> bool" where
  "env_in E c p e \<longleftrightarrow> E e \<and> cfg e = c \<and> clients e = client_num (client_count (srv p))"

inductive process_step :: "('w env \<Rightarrow> bool) \<Rightarrow> config \<Rightarrow> 'w process \<Rightarrow> 'w process \<Rightarrow> bool" for E c where
  accept: "ended p = None \<Longrightarrow> remote = Inl SystemError \<or> remote = Inr peer \<Longrightarrow>
     process_step E c p (admit c accepted remote home n0 p)"
| handle: "ended p = None \<Longrightarrow> k < length (assigned (srv p)) \<Longrightarrow> assigned (srv p) ! k = (wk, x) \<Longrightarrow> wk \<notin> stuck p \<Longrightarrow>
     deliverable h x \<Longrightarrow> env_in E c p e \<Longrightarrow> process_step E c p (serve e k h p)"
| outside: "process_step E c p (p\<lparr>files := w\<rparr>)"

inductive_cases process_stepE: "process_step E c p q"

text \<open>A process that \<^verbatim>\<open>main\<close> has started.\<close>

definition launched :: "config \<Rightarrow> nat \<Rightarrow> 'w process \<Rightarrow> bool" where
  "launched c hw p \<longleftrightarrow> stuck p = {} \<and> ended p = None \<and>
     (\<exists>argv open_conf bind_ok m. main_ftpd argv open_conf bind_ok hw = Inr (Some (m, c, srv p)))"

subsection \<open>The invariant\<close>

definition live_sessions :: "'w process \<Rightarrow> nat" where
  "live_sessions p = length (filter (\<lambda>(wk, x). \<not> destroyed x) (assigned (srv p)))"

definition sessions_ok :: "('w env \<Rightarrow> bool) \<Rightarrow> config \<Rightarrow> nat \<Rightarrow> 'w server \<Rightarrow> bool" where
  "sessions_ok E c hw s \<longleftrightarrow> server_inv hw s \<and>
     gone s = length (filter (\<lambda>(wk, x). destroyed x) (assigned s)) \<and>
     (\<forall>(wk, x) \<in> set (assigned s). \<exists>n0. reachable (\<lambda>e. E e \<and> cfg e = c) n0 x)"

lemma filter_update:
  assumes "k < length xs" and "\<not> P (xs ! k)"
  shows "length (filter P (xs[k := y])) = length (filter P xs) + (if P y then 1 else 0)"
  using assms
proof (induction xs arbitrary: k)
  case (Cons x xs)
  then show ?case by (cases k) auto
qed simp

lemma start_reachable: "reachable E n0 (start c (new_context home n0 peer w))"
  unfolding reachable_def started_def new_session_def by force

lemma reachable_world: "reachable E n0 x \<Longrightarrow> reachable E n0 (x\<lparr>world := w\<rparr>)"
  unfolding reachable_def by (auto intro: rtranclp.rtrancl_into_rtrancl sess_step.world_changes)

lemma served_reachable:
  assumes "reachable (\<lambda>e. E e \<and> cfg e = c) n0 x" and "deliverable h x" and "env_in E c p e"
    and "complete e h (x\<lparr>world := w\<rparr>) = Inr y"
  shows "reachable (\<lambda>e. E e \<and> cfg e = c) n0 y"
proof -
  let ?E = "\<lambda>e. E e \<and> cfg e = c"
  have d: "deliverable h (x\<lparr>world := w\<rparr>)" using assms(2) by (simp add: deliverable_def)
  obtain s0 where s0: "started n0 s0" "(sess_step ?E)\<^sup>*\<^sup>* s0 (x\<lparr>world := w\<rparr>)"
    using reachable_world [OF assms(1), of w] by (auto simp: reachable_def)
  have "sess_step ?E (x\<lparr>world := w\<rparr>) y"
    using assms(3) by (intro sess_step.completion [OF _ d assms(4)]) (simp add: env_in_def)
  with s0 show ?thesis unfolding reachable_def by (auto intro: rtranclp.rtrancl_into_rtrancl)
qed

lemma sessions_accept:
  assumes "sessions_ok E c hw s" and "on_client c accepted remote home n0 w s = Inr t"
  shows "sessions_ok E c hw t"
proof -
  have i: "server_inv hw t" using assms by (auto simp: sessions_ok_def intro: on_client_inv)
  have "gone t = gone s \<and> (assigned t = assigned s \<or>
      (\<exists>wk peer. assigned t = assigned s @ [(wk, start c (new_context home n0 peer w))]))"
    using assms(2)
    by (auto simp: on_client_def do_accept_def new_session_def sbind_Inr_iff Let_def split: option.splits if_splits)
  moreover have "\<not> destroyed (start c (new_context home n0 peer w))" for peer
    by (simp add: start_def new_context_def add_pending_def Let_def)
  moreover have "\<exists>n. reachable (\<lambda>e. E e \<and> cfg e = c) n (start c (new_context home n0 peer w))" for peer
    by (rule exI) (rule start_reachable)
  ultimately show ?thesis using assms(1) i unfolding sessions_ok_def by (elim conjE disjE exE) simp_all
qed

lemma sessions_serve:
  assumes ok: "sessions_ok E c hw s" and k: "k < length (assigned s)" "assigned s ! k = (wk, x)"
    and h: "deliverable h x" "env_in E c p e" and y: "complete e h (x\<lparr>world := w\<rparr>) = Inr y"
  shows "sessions_ok E c hw
     (if destroyed y then session_gone (s\<lparr>assigned := (assigned s)[k := (wk, y)]\<rparr>) else s\<lparr>assigned := (assigned s)[k := (wk, y)]\<rparr>)"
proof -
  let ?t = "s\<lparr>assigned := (assigned s)[k := (wk, y)]\<rparr>"
  have m: "(wk, x) \<in> set (assigned s)" using k nth_mem by fastforce
  then have "\<exists>n0. reachable (\<lambda>e. E e \<and> cfg e = c) n0 x" using ok by (auto simp: sessions_ok_def)
  then have r: "\<exists>n0. reachable (\<lambda>e. E e \<and> cfg e = c) n0 y" using served_reachable [OF _ h y] by blast
  have all: "\<forall>(v, z) \<in> set (assigned ?t). \<exists>n0. reachable (\<lambda>e. E e \<and> cfg e = c) n0 z"
    using ok r by (auto simp: sessions_ok_def dest!: set_update_subset_insert [THEN subsetD])
  have i: "server_inv hw ?t"
    using ok m by (auto simp: sessions_ok_def server_inv_def dest!: set_update_subset_insert [THEN subsetD])
  have x: "\<not> destroyed x" using y by (auto simp: complete_def split: if_splits)
  have g: "gone s + (if destroyed y then 1 else 0) = length (filter (\<lambda>(wk, x). destroyed x) (assigned ?t))"
    using ok filter_update [OF k(1), of "\<lambda>(wk, x). destroyed x"] k(2) x by (simp add: sessions_ok_def)
  show ?thesis
  proof (cases "destroyed y")
    case True
    then have l: "gone ?t < length (assigned ?t)"
      using g length_filter_le [of "\<lambda>(wk, x). destroyed x" "assigned ?t"] by simp
    from session_gone_inv [OF i l] True g all show ?thesis by (simp add: sessions_ok_def session_gone_def)
  qed (use i g all in \<open>simp add: sessions_ok_def\<close>)
qed

interpretation processes: machine_invariant "launched c hw" "process_step E c" "\<lambda>p. sessions_ok E c hw (srv p)"
proof unfold_locales
  fix p :: "'a process"
  assume "launched c hw p"
  then obtain s where "new_server True hw 0 = Inr s" "do_accept s = Inr (srv p)"
    by (auto simp: launched_def main_ftpd_def server_start_def sbind_Inr_iff new_server_def Let_def split: if_splits)
  then have "serving hw (srv p)" "assigned (srv p) = []" "gone (srv p) = 0"
    by (auto simp: serving_def new_server_def do_accept_def dest!: sym [of _ "srv p"] split: if_splits)
  then show "sessions_ok E c hw (srv p)" using serving_inv by (simp add: sessions_ok_def)
next
  fix p q :: "'a process"
  assume "sessions_ok E c hw (srv p)" and "process_step E c p q"
  then show "sessions_ok E c hw (srv q)"
    using sessions_serve [of E c hw "srv p"]
    by (elim process_stepE) (auto simp: admit_def serve_def Let_def intro: sessions_accept split: sum.split)
qed

lemma sessions_counted:
  assumes "sessions_ok E c hw (srv p)"
  shows "client_count (srv p) = of_nat (live_sessions p)"
proof -
  have "gone (srv p) + live_sessions p = length (assigned (srv p))"
    using assms sum_length_filter_compl [of "\<lambda>(wk, x). destroyed x" "assigned (srv p)"]
    by (simp add: sessions_ok_def live_sessions_def case_prod_unfold)
  then have "of_nat (length (assigned (srv p))) = (of_nat (gone (srv p)) + of_nat (live_sessions p) :: u32)"
    by (metis of_nat_add)
  with assms show ?thesis by (simp add: sessions_ok_def server_inv_def)
qed

subsection \<open>How the process ends\<close>

lemma completion_fails:
  assumes "reachable E n0 x" and "proper_calls e" and "deliverable h x" and "complete e h (x\<lparr>world := w\<rparr>) = Inl y"
  shows "y \<in> {FsException, SystemError, NullDeref, Hang} \<or> y = UseAfterFree \<and> destroyed x"
proof (cases "destroyed x")
  case True
  with assms(4) show ?thesis by (simp add: complete_def)
next
  case False
  let ?x = "x\<lparr>world := w\<rparr>"
  have "reachable E n0 ?x" using assms(1) by (rule reachable_world)
  then have "op_inv n0 ?x" "shape ?x" by (simp_all add: reachable_op_inv shaped.in_reachable)
  moreover have "h \<in> set (pending ?x)" using assms(3) by (simp add: deliverable_def)
  ultimately have "sound (complete e h ?x)" using False by (intro completion_sound [OF assms(2)]) simp_all
  with assms(4) show ?thesis by (auto simp: sound_def accounted_def)
qed

lemma process_failure:
  assumes ok: "sessions_ok proper_calls c hw (srv p)" and "process_step proper_calls c p q"
    and "ended p = None" "ended q = Some y"
  shows "y \<in> {FsException, SystemError, NullDeref} \<or>
    y = UseAfterFree \<and> (\<exists>(wk, x) \<in> set (assigned (srv p)). destroyed x \<and> pending x \<noteq> [])"
  using assms(2)
proof (cases rule: process_step.cases)
  case (accept remote peer accepted home n0)
  with ok assms(3,4) show ?thesis
    by (auto simp: admit_def on_client_def do_accept_def new_session_def sessions_ok_def server_inv_def Let_def split: sum.splits if_splits option.splits)
next
  case (handle k wk x h e)
  have m: "(wk, x) \<in> set (assigned (srv p))" using handle nth_mem by fastforce
  have f: "complete e h (x\<lparr>world := files p\<rparr>) = Inl y" "y \<noteq> Hang"
    using handle assms(3,4) by (auto simp: serve_def Let_def split: sum.splits if_splits)
  obtain n0 where "reachable (\<lambda>e. proper_calls e \<and> cfg e = c) n0 x" using ok m by (auto simp: sessions_ok_def)
  moreover have "proper_calls e" using handle by (simp add: env_in_def)
  moreover have "pending x \<noteq> []" using handle by (auto simp: deliverable_def)
  ultimately show ?thesis using completion_fails [OF _ _ _ f(1)] f(2) handle m by blast
qed (use assms in simp)

subsection \<open>A worker that does not return\<close>

lemma worker_lost_step:
  assumes "process_step E c p q" and "wk \<in> stuck p" "k < length (assigned (srv p))" "fst (assigned (srv p) ! k) = wk"
  shows "wk \<in> stuck q \<and> k < length (assigned (srv q)) \<and> assigned (srv q) ! k = assigned (srv p) ! k"
  using assms(1)
proof (cases rule: process_step.cases)
  case (accept remote peer accepted home n0)
  then show ?thesis using assms(2-4)
    by (auto simp: admit_def on_client_def do_accept_def new_session_def sbind_Inr_iff Let_def nth_append
        split: sum.splits if_splits option.splits)
next
  case (handle j v x h e)
  then have "j \<noteq> k" using assms(2,4) by auto
  with handle assms(2-4) show ?thesis
    by (auto simp: serve_def session_gone_def Let_def split: sum.splits)
qed (use assms in simp)

lemma worker_lost:
  assumes "(process_step E c)\<^sup>*\<^sup>* p q" and "wk \<in> stuck p" "k < length (assigned (srv p))" "fst (assigned (srv p) ! k) = wk"
  shows "wk \<in> stuck q \<and> k < length (assigned (srv q)) \<and> assigned (srv q) ! k = assigned (srv p) ! k"
  using assms
proof (induction rule: rtranclp_induct)
  case (step q r)
  note q = step.IH [OF step.prems]
  from worker_lost_step [OF step.hyps(2), of wk k] q step.prems(3) show ?case by simp
qed simp

lemma hang_starves:
  assumes "assigned (srv p) ! k = (wk, x)" and "complete e h (x\<lparr>world := files p\<rparr>) = Inl Hang"
    and "(process_step E c)\<^sup>*\<^sup>* (serve e k h p) q" and "j < length (assigned (srv p))" "fst (assigned (srv p) ! j) = wk"
  shows "wk \<in> stuck q \<and> assigned (srv q) ! j = assigned (srv p) ! j"
proof -
  have s: "serve e k h p = p\<lparr>stuck := insert wk (stuck p)\<rparr>" using assms(1,2) by (simp add: serve_def)
  from worker_lost [OF assms(3), of wk j] assms(4,5) show ?thesis by (simp add: s)
qed

text \<open>A failed write to the file of an upload is such a handler.\<close>

lemma failed_write_hangs:
  assumes "\<not> destroyed x" and "lookup_op i x = Some (Receiving f)" "data_socket x = Some SockOpen"
    and e: "ec_of e = Success" "available e = Inr n" "n \<noteq> 0"
    and s: "splices e = (SpData d, before @ - 1 # later) # rest" "d \<noteq> []"
    and r: "\<forall>r \<in> set (before @ later). - 1 \<le> r" "\<forall>r \<in> set before. 1 \<le> r"
      "total before < int (length d)" "total (before @ later) \<le> int (length d)"
  shows "complete e (OnRecvReady i) (x\<lparr>world := w\<rparr>) = Inl Hang"
proof -
  let ?x = "(x\<lparr>world := w\<rparr>)\<lparr>pending := remove1 (OnRecvReady i) (pending x)\<rparr>"
  have "lookup_op i ?x = Some (Receiving f)" "data_socket ?x = Some SockOpen" using assms(2,3) by (simp_all add: lookup_op_def)
  from recv_event_hangs [OF this e s r] assms(1) show ?thesis by (simp add: complete_def handler_body_def)
qed

end
