(* ===== verification/Login.thy ===== *)
theory Login
  imports Holdings
begin

text \<open>
  The login: what a session may do before it, and that its outcome is final. A session
  whose client has not logged in holds no operator, no acceptor and no data connection.
\<close>

definition login :: "'w sess \<Rightarrow> bool \<times> string \<times> bool" where
  "login s = (verified s, user s, is_anonymous s)"

definition guest :: "'w sess \<Rightarrow> bool" where
  "guest s \<longleftrightarrow> operators s = [] \<and> acceptor s = AccClosed \<and> data_socket s = None \<and>
     listings s = []"

text \<open>The names that make a session anonymous, under a configuration.\<close>

definition anonymous_name :: "config \<Rightarrow> string \<Rightarrow> bool" where
  "anonymous_name c u \<longleftrightarrow> anonymous_enable c \<and> map tolower u = ''anonymous''"

definition login_inv :: "config \<Rightarrow> 'w sess \<Rightarrow> bool" where
  "login_inv c s \<longleftrightarrow> (if verified s then user s \<noteq> [] \<and> is_anonymous s = anonymous_name c (user s)
                      else \<not> is_anonymous s \<and> guest s)"

lemma login_account: "account t = account s \<Longrightarrow> login t = login s"
  by (simp add: account_def login_def)

lemma login_inv_verified:
  "login t = login s \<Longrightarrow> verified s \<Longrightarrow> login_inv c t = login_inv c s"
  by (simp add: login_def login_inv_def)

lemma login_simps [simp]:
  "login (enqueue b m s) = login s" "login (add_pending h s) = login s"
  "login (s\<lparr>message_queue := q, dropped := d\<rparr>) = login s" "login (s\<lparr>message_queue := q\<rparr>) = login s"
  "login (s\<lparr>pending := hs\<rparr>) = login s" "login (s\<lparr>sent := l\<rparr>) = login s"
  "login (s\<lparr>buf := x, request := r\<rparr>) = login s" "login (s\<lparr>buf := x\<rparr>) = login s"
  "login (s\<lparr>request := r\<rparr>) = login s" "login (s\<lparr>transport := t\<rparr>) = login s"
  "login (s\<lparr>acceptor := a\<rparr>) = login s" "login (s\<lparr>current_path := p\<rparr>) = login s"
  "login (s\<lparr>world := w\<rparr>) = login s" "login (s\<lparr>keep_cancelled := k\<rparr>) = login s"
  "login (s\<lparr>operators := ops\<rparr>) = login s" "login (basic_op_ctor s) = login s"
  "login (s\<lparr>next_op := j\<rparr>) = login s" "login (open_fd fd s) = login s"
  "login (restart_if_idle e s) = login s" "login (expires_never s) = login s"
  "login (close s) = login s" "login (drop_session s) = login s" "login (release e s) = login s"
  by (simp_all add: login_def add_pending_def expires_never_def close_def drop_session_def
        restart_if_idle_def update_idle_timer_def basic_op_ctor_def open_fd_def)

subsection \<open>After the login\<close>

definition login_kept :: "'w sess \<Rightarrow> 'w sess \<Rightarrow> bool" where
  "login_kept s t \<longleftrightarrow> login t = login s"

lemma control_login:
  "sall (login_kept s) (ack_op e s)" "sall (login_kept s) (syst_op e s)" "sall (login_kept s) (print_working_dir_op e s)"
  "sall (login_kept s) (stat_op e s)" "sall (login_kept s) (property_op e s)" "sall (login_kept s) (passive_mode_op e s)"
  "sall (login_kept s) (size_op e s)" "sall (login_kept s) (create_dir_op e s)"
  "sall (login_kept s) (change_working_dir_op e s)" "sall (login_kept s) (cd_to_parent_op e s)"
  by (auto simp: ack_op_def syst_op_def print_working_dir_op_def stat_op_def property_op_def
        passive_mode_op_def size_op_def create_dir_op_def change_working_dir_op_def cd_to_parent_op_def
        change_to_def reply_eq login_kept_def Let_def intro!: sall_any)

lemma auth_refuses:
  "command (request s) \<noteq> ''USER'' \<Longrightarrow> command (request s) \<noteq> ''PASS'' \<Longrightarrow> sall (login_kept s) (auth_op e s)"
  by (simp add: auth_op_def reply_eq login_kept_def)

lemma construct_login:
  "sall (\<lambda>(i, t). login_kept s t \<and> request t = request s) (construct e c s)"
proof -
  have o: "request (open_fd fd t) = request t" for fd and t :: "'a sess" by (simp add: open_fd_def)
  let ?s0 = "basic_op_ctor (s\<lparr>next_op := Suc (next_op s)\<rparr>)"
  have r: "request ?s0 = request s" "login ?s0 = login s" by (simp_all) (simp add: basic_op_ctor_def)
  have "sall (\<lambda>(f, t). login_kept ?s0 t \<and> request t = request ?s0) (send_file_ctor e ?s0)"
    unfolding send_file_ctor_def Let_def
    by (auto simp: write_message_eq login_kept_def o intro!: sall_any)
  moreover have "sall (\<lambda>(f, t). login_kept ?s0 t \<and> request t = request ?s0) (recv_file_ctor e ?s0)"
    unfolding recv_file_ctor_def Let_def
    by (auto simp: write_message_eq login_kept_def o intro!: sall_any split: prod.splits option.splits)
  ultimately have
    "sall (\<lambda>(i, t). login_kept s t \<and> request t = request s) (sbind (send_file_ctor e ?s0)
          (\<lambda>(f, t). Inr (next_op s, t\<lparr>operators := operators t @ [(next_op s, Sending f)]\<rparr>)))"
    "sall (\<lambda>(i, t). login_kept s t \<and> request t = request s) (sbind (recv_file_ctor e ?s0)
          (\<lambda>(f, t). Inr (next_op s, t\<lparr>operators := operators t @ [(next_op s, Receiving f)]\<rparr>)))"
    by (auto simp: login_kept_def r elim!: sall_mono)
  then show ?thesis
    unfolding construct_def Let_def
    by (cases c) (simp_all add: login_kept_def r del: sall_bind)
qed

lemma do_operation_login:
  assumes "op_inv n0 s" and "command (request s) \<noteq> ''USER''" "command (request s) \<noteq> ''PASS''"
  shows "sall (login_kept s) (do_operation e i s)"
proof -
  have k: "sall (login_kept s) m" if "sall (keeps s) m" for m
    by (rule sall_mono [OF that]) (unfold keeps_def login_kept_def, blast intro: login_account)
  show ?thesis
  proof (cases "lookup_op i s")
    case (Some obj)
    show ?thesis
    proof (cases obj)
      case (Plain c)
      note ops = control_login [of s e] auth_refuses [OF assms(2,3), of e] k [OF fetch_keeps(1) [of s e i]]
      show ?thesis
        unfolding do_operation_def Some option.case Plain operator.case list_op_def
        by (cases c) (simp_all only: op_class.case ops sall_simps)
    next
      case (Sending f)
      with Some k [OF transfer_start_keeps(1) [OF assms(1)]] show ?thesis by (simp add: do_operation_def)
    next
      case (Receiving f)
      with Some k [OF transfer_start_keeps(2) [OF assms(1)]] show ?thesis by (simp add: do_operation_def)
    qed
  qed (simp add: do_operation_def)
qed

lemma run_op_login:
  assumes "op_inv n0 s" and "command (request s) \<noteq> ''USER''" "command (request s) \<noteq> ''PASS''"
  shows "sall (login_kept s) (run_op e c s)"
proof -
  have "sall (\<lambda>(i, t). op_inv n0 t \<and> login_kept s t \<and> request t = request s) (construct e c s)"
    by (rule sall_mono [OF sall_conj [OF op_inv_construct [OF assms(1)] construct_login]]) auto
  moreover have "sall (\<lambda>u. login_kept s (release e u)) (do_operation e i t)"
    if "op_inv n0 t" "login_kept s t" "request t = request s" for i t
    using do_operation_login [OF that(1), of e i] assms(2,3) that(2,3)
    by (auto simp: login_kept_def elim!: sall_mono)
  ultimately show ?thesis
    unfolding run_op_def by (auto elim!: sall_mono split: prod.splits)
qed

lemma dispatch_login:
  assumes "op_inv n0 s" and "verified s"
  shows "sall (\<lambda>(b, t). login_kept s t) (dispatch_task e s)"
proof -
  have "login_kept s (enqueue b NoToken s)" for b by (simp add: login_kept_def)
  then show ?thesis
    using assms(2) run_op_login [OF assms(1), of e]
    by (auto simp: dispatch_task_def reply_eq split: option.split)
qed

lemma handle_read_login:
  assumes "op_inv n0 s" and "verified s"
  shows "sall (login_kept s) (handle_read e n s)"
proof -
  obtain built req where p: "parse_line (take n (buf s)) (request s) = (built, req)"
    by (cases "parse_line (take n (buf s)) (request s)")
  let ?s1 = "s\<lparr>buf := drop n (buf s), request := req\<rparr>"
  have "op_inv n0 ?s1" using assms(1) by (subst op_inv_cong [of _ s]) simp_all
  then have "sall (\<lambda>(b, t). login_kept ?s1 t) (dispatch_task e ?s1)"
    using assms(2) by (intro dispatch_login) simp_all
  then have "sall (\<lambda>(b, t). login_kept s (if \<not> b then restart_if_idle e t else t)) (dispatch_task e ?s1)"
    by (rule sall_mono) (auto simp: login_kept_def)
  then show ?thesis
    by (auto simp: handle_read_def p Let_def login_kept_def elim!: sall_mono)
qed

subsection \<open>Before the login\<close>

lemma auth_outcome:
  assumes "\<not> verified s" and "\<not> is_anonymous s"
  shows "sall (\<lambda>t. (if verified t then user t \<noteq> [] \<and> is_anonymous t = anonymous_name (cfg e) (user t)
                     else \<not> is_anonymous t) \<and>
           operators t = operators s \<and> acceptor t = acceptor s \<and> data_socket t = data_socket s \<and>
           listings t = listings s \<and> world t = world s \<and> current_path t = current_path s) (auth_op e s)"
  using assms by (simp add: auth_op_def validate_def reply_eq anonymous_name_def)

lemma referenced_enqueue: "referenced i (enqueue b t s) \<longleftrightarrow> referenced i s \<or> token_ref t = Some i"
  by (auto simp: referenced_def enqueue_def)

lemma quiet_referenced: "quiet s t \<Longrightarrow> referenced i t = referenced i s"
  by (rule referenced_cong) (simp_all add: quiet_def)

lemma control_referenced: "control_effect s t \<Longrightarrow> referenced i t = referenced i s"
  by (auto simp: control_effect_def referenced_enqueue quiet_referenced)

lemma guest_unreferenced: "op_inv n0 s \<Longrightarrow> operators s = [] \<Longrightarrow> \<not> referenced i s"
  by (auto simp: op_inv_def referenced_def dest: handler_fits_alive token_fits_alive)

lemma release_no_data: "data_socket s = None \<Longrightarrow> data_socket (release e s) = None"
proof -
  have "data_socket (destroy_op e i t) = None" if "data_socket t = None" for i and t :: "'a sess"
    using that destroy_op_effect [of i t e] destroy_op_dead [of i t e]
    by (cases "lookup_op i t = None") (auto simp: dtor_effect_def)
  then have "data_socket (fold (destroy_op e) is t) = None" if "data_socket t = None" for "is" and t :: "'a sess"
    using that by (induction "is" arbitrary: t) simp_all
  moreover assume "data_socket s = None"
  ultimately show ?thesis by (simp add: release_def)
qed

definition untouched :: "'w sess \<Rightarrow> 'w sess \<Rightarrow> bool" where
  "untouched s t \<longleftrightarrow> guest t \<and> world t = world s \<and> current_path t = current_path s"

lemma guest_run:
  assumes "op_inv n0 s" and "guest s" and "\<not> verified s" and "\<not> is_anonymous s"
  shows "sall (\<lambda>t. login_inv (cfg e) t \<and> untouched s t) (run_op e AuthOp s)"
proof -
  let ?s0 = "basic_op_ctor (s\<lparr>next_op := Suc (next_op s)\<rparr>)"
  let ?s1 = "?s0\<lparr>operators := operators ?s0 @ [(next_op s, Plain AuthOp)]\<rparr>"
  have frame: "operators ?s1 = [(next_op s, Plain AuthOp)]" "acceptor ?s1 = AccClosed"
    "data_socket ?s1 = None" "listings ?s1 = []" "world ?s1 = world s" "current_path ?s1 = current_path s"
    "\<not> verified ?s1" "\<not> is_anonymous ?s1" "pending ?s1 = pending s" "message_queue ?s1 = message_queue s"
    using assms by (simp_all add: guest_def basic_op_ctor_def)
  have "sall (\<lambda>t. login_inv (cfg e) (release e t) \<and> untouched s (release e t)) (auth_op e ?s1)"
  proof (rule sall_mono)
    show "sall (\<lambda>t. control_effect ?s1 t \<and> ((if verified t then user t \<noteq> [] \<and> is_anonymous t = anonymous_name (cfg e) (user t)
                     else \<not> is_anonymous t) \<and>
           operators t = operators ?s1 \<and> acceptor t = acceptor ?s1 \<and> data_socket t = data_socket ?s1 \<and>
           listings t = listings ?s1 \<and> world t = world ?s1 \<and> current_path t = current_path ?s1)) (auth_op e ?s1)"
      using frame by (intro sall_conj auth_outcome sallI auth_op_effect) simp_all
  next
    fix t assume t: "control_effect ?s1 t \<and> ((if verified t then user t \<noteq> [] \<and> is_anonymous t = anonymous_name (cfg e) (user t)
                     else \<not> is_anonymous t) \<and>
           operators t = operators ?s1 \<and> acceptor t = acceptor ?s1 \<and> data_socket t = data_socket ?s1 \<and>
           listings t = listings ?s1 \<and> world t = world ?s1 \<and> current_path t = current_path ?s1)"
    have "\<not> referenced (next_op s) s"
      using assms(1,2) by (intro guest_unreferenced) (simp_all add: guest_def)
    then have "\<not> referenced (next_op s) t"
      using t control_referenced [of ?s1 t] referenced_cong [of ?s1 s] frame by simp
    then have "operators (release e t) = []" using t frame by (simp add: release_operators)
    then have "guest (release e t)" using t frame by (simp add: guest_def release_no_data)
    then show "login_inv (cfg e) (release e t) \<and> untouched s (release e t)"
      using t frame by (auto simp: login_inv_def untouched_def split: if_splits)
  qed
  moreover have "lookup_op (next_op s) ?s1 = Some (Plain AuthOp)" using frame by (simp add: lookup_op_def)
  ultimately show ?thesis
    by (simp add: run_op_def construct_def Let_def do_operation_def)
qed

subsection \<open>One completion\<close>

lemma guest_simps [simp]:
  "guest (enqueue b m s) = guest s" "guest (add_pending h s) = guest s"
  "guest (s\<lparr>message_queue := q, dropped := d\<rparr>) = guest s" "guest (s\<lparr>message_queue := q\<rparr>) = guest s"
  "guest (s\<lparr>pending := hs\<rparr>) = guest s" "guest (s\<lparr>sent := l\<rparr>) = guest s"
  "guest (s\<lparr>dropped := l\<rparr>) = guest s" "guest (s\<lparr>world := w\<rparr>) = guest s"
  "guest (s\<lparr>buf := x, request := r\<rparr>) = guest s" "guest (s\<lparr>buf := x\<rparr>) = guest s"
  "guest (s\<lparr>keep_cancelled := k\<rparr>) = guest s" "guest (restart_if_idle e s) = guest s"
  "guest (expires_never s) = guest s" "guest (update_idle_timer e n s) = guest s"
  "guest (cancel_idle_timer s) = guest s" "guest (close s) = guest s"
  by (simp_all add: guest_def add_pending_def expires_never_def update_idle_timer_def cancel_idle_timer_def
        close_def restart_if_idle_def)

lemma guest_release [simp]: "guest s \<Longrightarrow> release e s = s"
  by (simp add: guest_def release_def unreferenced_def)

lemma guest_drop [simp]: "guest s \<Longrightarrow> guest (drop_session s)"
  by (simp add: guest_def drop_session_def)

text \<open>What a completion of a session that is not logged in ends in.\<close>

definition guest_result :: "config \<Rightarrow> 'w sess \<Rightarrow> 'w sess \<Rightarrow> bool" where
  "guest_result c s t \<longleftrightarrow> login_inv c t \<and> untouched s t"

lemma guest_resultI:
  "guest t \<Longrightarrow> login t = login s \<Longrightarrow> world t = world s \<Longrightarrow> current_path t = current_path s \<Longrightarrow>
   \<not> verified s \<Longrightarrow> \<not> is_anonymous s \<Longrightarrow> guest_result c s t"
  by (simp add: guest_result_def untouched_def login_inv_def login_def)

lemma guest_result_cong:
  assumes "guest_result c s t" "login u = login t" "guest t \<Longrightarrow> guest u" "world u = world t" "current_path u = current_path t"
  shows "guest_result c s u"
  using assms by (auto simp: guest_result_def untouched_def login_inv_def login_def split: if_splits)

lemma guest_handle_read:
  assumes "op_inv n0 s" and "guest s" and "\<not> verified s" and "\<not> is_anonymous s"
  shows "sall (guest_result (cfg e) s) (handle_read e n s)"
proof -
  obtain built req where p: "parse_line (take n (buf s)) (request s) = (built, req)"
    by (cases "parse_line (take n (buf s)) (request s)")
  let ?s1 = "s\<lparr>buf := drop n (buf s), request := req\<rparr>"
  have "op_inv n0 ?s1" using assms(1) by (subst op_inv_cong [of _ s]) simp_all
  then have "sall (\<lambda>t. login_inv (cfg e) t \<and> untouched ?s1 t) (run_op e AuthOp ?s1)"
    using assms by (intro guest_run) simp_all
  then have "sall (guest_result (cfg e) s) (run_op e AuthOp ?s1)"
    by (rule sall_mono) (simp add: guest_result_def untouched_def)
  moreover have "regist_all_operation ''AUTH'' = Some AuthOp" by (simp add: registered registrations_def)
  moreover have "guest_result (cfg e) s (restart_if_idle e ?s1)" using assms by (intro guest_resultI) simp_all
  ultimately show ?thesis
    using assms by (auto simp: handle_read_def p Let_def dispatch_task_def)
qed

lemma guest_token: "op_inv n0 s \<Longrightarrow> operators s = [] \<Longrightarrow> m \<in> set (message_queue s) \<Longrightarrow> snd m = NoToken"
  by (cases "snd m") (auto simp: op_inv_def sending_ok_def receiving_ok_def listing_ok_def)

lemma guest_completion:
  assumes inv: "op_inv n0 s" and g: "guest s" "\<not> verified s" "\<not> is_anonymous s" and h: "h \<in> set (pending s)"
  shows "sall (guest_result (cfg e) s) (complete e h s)"
proof -
  let ?s = "s\<lparr>pending := remove1 h (pending s)\<rparr>"
  have i: "op_inv n0 ?s" by (rule op_inv_taken [OF inv])
  have ops: "operators s = []" using g by (simp add: guest_def)
  have h0: "handler_ref h = None"
    using inv h ops by (cases h) (auto simp: op_inv_def sending_ok_def receiving_ok_def listing_ok_def)
  have I: "guest t \<Longrightarrow> login t = login s \<Longrightarrow> world t = world s \<Longrightarrow> current_path t = current_path s \<Longrightarrow>
      guest_result (cfg e) s t" for t
    using g by (intro guest_resultI) simp_all
  have w: "sall (guest_result (cfg e) s) (do_write_message e t)"
    if "guest t" "login t = login s" "world t = world s" "current_path t = current_path s" for t
    using that by (auto simp: do_write_message_def intro!: I)
       (simp_all add: login_def add_pending_def update_idle_timer_def cancel_idle_timer_def)
  have body: "sall (guest_result (cfg e) s) (handler_body e h ?s)"
  proof (cases h)
    case (OnBanner b)
    then show ?thesis
      using g by (auto simp: handler_body_def on_banner_def start_idle_timer_def do_read_def intro!: I)
        (simp_all add: login_def update_idle_timer_def add_pending_def)
  next
    case OnRead
    let ?t = "expires_never (?s\<lparr>buf := buf s @ chunk e\<rparr>)"
    have "op_inv n0 ?t" using i by (subst op_inv_never, subst op_inv_cong [of _ ?s]) simp_all
    moreover have l: "login ?t = login s" by simp
    ultimately have "sall (guest_result (cfg e) ?t) (handle_read e (read_n e) ?t)"
      using g by (intro guest_handle_read) (simp_all add: login_def)
    then have "sall (\<lambda>u. guest_result (cfg e) s (do_read u)) (handle_read e (read_n e) ?t)"
    proof (rule sall_mono)
      fix u assume "guest_result (cfg e) ?t u"
      then have "guest_result (cfg e) s u" by (simp add: guest_result_def untouched_def expires_never_def)
      then show "guest_result (cfg e) s (do_read u)"
        by (rule guest_result_cong) (simp_all add: do_read_def, simp_all add: add_pending_def)
    qed
    with OnRead g show ?thesis
      by (auto simp: handler_body_def on_read_def Let_def intro!: I split: ec.split)
        (simp_all add: close_def expires_never_def add_pending_def)
  next
    case OnIdle
    then show ?thesis
      using g by (auto simp: handler_body_def on_idle_def start_idle_timer_def intro!: I)
        (simp_all add: close_def add_pending_def)
  next
    case OnKeepAlive
    then show ?thesis using g by (auto simp: handler_body_def intro!: I)
  next
    case OnWrite
    show ?thesis
    proof (cases "message_queue s")
      case (Cons m ms)
      obtain b t where m: "m = (b, t)" by (cases m)
      have "t = NoToken" using guest_token [OF inv ops, of m] Cons m by simp
      with OnWrite Cons m g show ?thesis
        by (auto simp: handler_body_def on_write_def run_token_def intro!: I w)
    qed (use OnWrite g in \<open>auto simp: handler_body_def on_write_def intro!: I\<close>)
  qed (use h0 in simp_all)
  have "sall (\<lambda>t. guest_result (cfg e) s (drop_session (release e t))) (handler_body e h ?s)"
  proof (rule sall_mono [OF body])
    fix t assume r: "guest_result (cfg e) s t"
    then have "release e t = t" by (simp add: guest_result_def untouched_def)
    moreover have "guest_result (cfg e) s (drop_session t)"
      using r by (rule guest_result_cong) (simp_all, simp_all add: drop_session_def)
    ultimately show "guest_result (cfg e) s (drop_session (release e t))" by simp
  qed
  then show ?thesis by (simp add: complete_def)
qed

text \<open>The completion of a session that is logged in.\<close>

lemma on_read_login:
  assumes "op_inv n0 s" and "verified s" shows "sall (login_kept s) (on_read e s)"
proof -
  let ?t = "expires_never (s\<lparr>buf := buf s @ chunk e\<rparr>)"
  have "op_inv n0 ?t" using assms(1) by (subst op_inv_never, subst op_inv_cong [of _ s]) simp_all
  moreover have "login ?t = login s" by simp
  ultimately have "sall (login_kept ?t) (handle_read e (read_n e) ?t)"
    using assms(2) by (intro handle_read_login) (simp_all add: login_def)
  then have "sall (\<lambda>u. login_kept s (do_read u)) (handle_read e (read_n e) ?t)"
    by (rule sall_mono) (simp add: login_kept_def do_read_def)
  then show ?thesis
    by (auto simp: on_read_def Let_def login_kept_def split: ec.split)
qed

lemma do_write_account: "account t = account s \<Longrightarrow> sall (\<lambda>u. account u = account s) (do_write_message e t)"
  by (rule sall_mono [OF do_write_keeps [OF keeps_simps(1)]]) (simp add: keeps_def)

lemma on_write_account: "sall (\<lambda>u. account u = account s) (on_write e s)"
proof (cases "ec_of e = Success \<and> message_queue s \<noteq> []")
  case True
  then obtain b t ms where ms: "message_queue s = (b, t) # ms" by (cases "message_queue s") auto
  have "sall (\<lambda>u. sall (\<lambda>v. account v = account s) (do_write_message e (release e (u\<lparr>message_queue := tl (message_queue u)\<rparr>))))
          (run_token t (s\<lparr>sent := sent s @ [b]\<rparr>))"
    by (rule sall_mono [OF token_keeps], rule do_write_account) (simp add: keeps_def, simp add: account_def)
  with True ms show ?thesis by (simp add: on_write_def)
qed (auto simp: on_write_def split: list.split, simp_all add: account_def)

text \<open>Only a line that was read can change the account, and with it the login.\<close>

lemma wordless_account:
  assumes "op_inv n0 s" and "h \<noteq> OnRead \<or> ec_of e \<noteq> Success"
  shows "sall (\<lambda>t. account t = account s) (handler_body e h s)"
proof -
  have k: "sall (\<lambda>t. account t = account s) m" if "sall (keeps s) m" for m
    by (rule sall_mono [OF that]) (simp add: keeps_def)
  have own: "sall (keeps s) (on_banner e x s)" "sall (keeps s) (on_idle e s)" for x
    by (simp_all add: on_banner_def on_idle_def start_idle_timer_def do_read_def)
  have read: "ec_of e \<noteq> Success \<Longrightarrow> sall (keeps s) (on_read e s)"
    by (cases "ec_of e") (auto simp: on_read_def Let_def)
  show ?thesis
    using assms(2) k [OF read] on_write_account [of s e] k [OF own(1)] k [OF own(2)]
      k [OF accept_keeps] k [OF send_deal_keeps [OF assms(1)]] k [OF recv_deal_keeps [OF assms(1)]]
      k [OF data_keeps(5) [OF keeps_simps(1)]]
    by (cases h) (auto simp: handler_body_def)
qed

lemma wordless_body:
  assumes "op_inv n0 s" and "h \<noteq> OnRead \<or> ec_of e \<noteq> Success"
  shows "sall (login_kept s) (handler_body e h s)"
  by (rule sall_mono [OF wordless_account [OF assms]]) (unfold login_kept_def, rule login_account)

lemma login_completed:
  assumes "sall (login_kept (s\<lparr>pending := hs\<rparr>)) (handler_body e h (s\<lparr>pending := remove1 h (pending s)\<rparr>))"
  shows "sall (login_kept s) (complete e h s)"
proof -
  have "sall (\<lambda>t. login_kept s (drop_session (release e t))) (handler_body e h (s\<lparr>pending := remove1 h (pending s)\<rparr>))"
    using assms by (rule sall_mono) (simp add: login_kept_def)
  then show ?thesis by (simp add: complete_def)
qed

lemma wordless_completion:
  assumes "op_inv n0 s" and "h \<noteq> OnRead \<or> ec_of e \<noteq> Success"
  shows "sall (login_kept s) (complete e h s)"
  by (rule login_completed, rule wordless_body [OF op_inv_taken [OF assms(1)] assms(2)])

lemma verified_completion:
  assumes "op_inv n0 s" and "verified s"
  shows "sall (login_kept s) (complete e h s)"
proof (cases "h \<noteq> OnRead \<or> ec_of e \<noteq> Success")
  case True
  with assms(1) show ?thesis by (rule wordless_completion)
next
  case False
  have "sall (login_kept (s\<lparr>pending := remove1 OnRead (pending s)\<rparr>)) (on_read e (s\<lparr>pending := remove1 OnRead (pending s)\<rparr>))"
    using assms by (intro on_read_login [OF op_inv_taken]) simp_all
  with False show ?thesis by (intro login_completed) (simp add: handler_body_def)
qed

subsection \<open>The invariant\<close>

lemma login_completion:
  assumes "op_inv n0 s" and "login_inv (cfg e) s" and "deliverable h s" and "complete e h s = Inr t"
  shows "login_inv (cfg e) t"
proof -
  have h: "h \<in> set (pending s)" using assms(3) by (simp add: deliverable_def)
  show ?thesis
  proof (cases "verified s")
    case True
    with verified_completion [OF assms(1) True, of e h] assms(4) have "login t = login s" by (simp add: login_kept_def)
    then show ?thesis using login_inv_verified [of t s "cfg e"] True assms(2) by simp
  next
    case False
    then have "guest s" "\<not> is_anonymous s" using assms(2) by (simp_all add: login_inv_def)
    then show ?thesis using guest_completion [OF assms(1) _ False _ h, of e] assms(4) by (simp add: guest_result_def)
  qed
qed

lemma login_started: "started n0 s \<Longrightarrow> login_inv c s"
  by (auto simp: started_def new_session_def start_def new_context_def add_pending_def Let_def login_inv_def guest_def)

interpretation logins: session_invariant "\<lambda>e. cfg e = c" n0 "login_inv c"
  by unfold_locales (auto simp: login_started intro: login_completion, simp add: login_inv_def)

lemma login_anonymity:
  assumes "reachable (\<lambda>e. cfg e = c) n0 s" and "verified s"
  shows "user s \<noteq> [] \<and> is_anonymous s = anonymous_name c (user s)"
  using logins.in_reachable [OF assms(1)] assms(2) by (simp add: login_inv_def)

end
