(* ===== verification/Refinement.thy ===== *)
theory Refinement
  imports Session_Shape Login
begin

text \<open>
  Two abstract machines that a session implements: the reply channel, a queue that is
  written in order or abandoned as a whole, and the login, a machine with two kinds of
  states. The mapping is functional: a state of the session has one abstract state, and a
  step of the session is a run of abstract steps.
\<close>

subsection \<open>Simulation\<close>

locale simulation =
  fixes cstart :: "'c \<Rightarrow> bool" and cstep :: "'c \<Rightarrow> 'c \<Rightarrow> bool" and inv :: "'c \<Rightarrow> bool"
    and abs :: "'c \<Rightarrow> 'a" and astart :: "'a \<Rightarrow> bool" and astep :: "'a \<Rightarrow> 'a \<Rightarrow> bool"
  assumes inv_start: "cstart s \<Longrightarrow> inv s"
    and inv_step: "inv s \<Longrightarrow> cstep s t \<Longrightarrow> inv t"
    and sim_start: "cstart s \<Longrightarrow> astart (abs s)"
    and sim_step: "inv s \<Longrightarrow> cstep s t \<Longrightarrow> astep\<^sup>*\<^sup>* (abs s) (abs t)"
begin

sublocale concrete: machine_invariant cstart cstep inv
  by unfold_locales (auto intro: inv_start inv_step)

lemma sim_steps: "cstep\<^sup>*\<^sup>* s t \<Longrightarrow> inv s \<Longrightarrow> astep\<^sup>*\<^sup>* (abs s) (abs t)"
proof (induction rule: rtranclp_induct)
  case (step t u)
  then have "inv t" by (blast intro: concrete.steps_inv)
  with step sim_step [of t u] show ?case by (metis rtranclp_trans)
qed simp

lemma sim_reached: "cstart s \<Longrightarrow> cstep\<^sup>*\<^sup>* s t \<Longrightarrow> \<exists>a. astart a \<and> astep\<^sup>*\<^sup>* a (abs t)"
  using sim_start sim_steps inv_start by blast

end

subsection \<open>The reply channel\<close>

record channel =
  ch_written :: "string list"
  ch_waiting :: "string list"
  ch_lost :: "string list"

inductive channel_step :: "channel \<Rightarrow> channel \<Rightarrow> bool" where
  submit: "channel_step c (c\<lparr>ch_waiting := ch_waiting c @ [m]\<rparr>)"
| deliver: "ch_waiting c = m # q \<Longrightarrow> channel_step c (c\<lparr>ch_written := ch_written c @ [m], ch_waiting := q\<rparr>)"
| abandon: "channel_step c (c\<lparr>ch_waiting := [], ch_lost := ch_lost c @ ch_waiting c\<rparr>)"

inductive_cases channel_stepE: "channel_step c d"

text \<open>What a step of the channel can do, per kind of step.\<close>

inductive_simps channel_step_iff: "channel_step c d"

lemma channel_written: "channel_step\<^sup>*\<^sup>* c d \<Longrightarrow> prefix (ch_written c) (ch_written d)"
  by (induction rule: rtranclp_induct) (auto simp: channel_step_iff intro: prefix_order.trans)

text \<open>The greeting waits in its own write, every other reply in the message queue.\<close>

fun greeting :: "handler \<Rightarrow> string list" where
  "greeting (OnBanner b) = [b]"
| "greeting _ = []"

definition greetings :: "handler list \<Rightarrow> string list" where
  "greetings hs = concat (map greeting hs)"

definition channel_of :: "'w sess \<Rightarrow> channel" where
  "channel_of s = \<lparr>ch_written = sent s, ch_waiting = greetings (pending s) @ map fst (message_queue s), ch_lost = dropped s\<rparr>"

lemma submit_all: "channel_step\<^sup>*\<^sup>* c (c\<lparr>ch_waiting := ch_waiting c @ ms\<rparr>)"
proof (induction ms rule: rev_induct)
  case (snoc m ms)
  have "channel_step (c\<lparr>ch_waiting := ch_waiting c @ ms\<rparr>)
          (c\<lparr>ch_waiting := ch_waiting c @ ms\<rparr>\<lparr>ch_waiting := ch_waiting (c\<lparr>ch_waiting := ch_waiting c @ ms\<rparr>) @ [m]\<rparr>)"
    by (rule channel_step.submit)
  with snoc show ?case by simp
qed simp

lemma greetings_simps [simp]:
  "greetings [] = []" "greetings (h # hs) = greeting h @ greetings hs" "greetings (xs @ ys) = greetings xs @ greetings ys"
  by (simp_all add: greetings_def)

lemma greeting_ref: "handler_ref h \<noteq> None \<Longrightarrow> greeting h = []"
  by (cases h) simp_all

lemma greetings_session: "greetings (session_handlers hs) = greetings hs"
  by (induction hs) (auto simp: greeting_ref)

lemma greetings_none: "\<forall>b. OnBanner b \<notin> set hs \<Longrightarrow> greetings hs = []"
proof (induction hs)
  case (Cons h hs)
  then show ?case by (cases h) auto
qed simp

lemma greetings_remove: "\<forall>b. OnBanner b \<notin> set hs \<Longrightarrow> greetings (remove1 h hs) = []"
  by (rule greetings_none) (meson notin_set_remove1)

text \<open>Replies handed over are submitted.\<close>

lemma channel_extends:
  assumes "extends s t" and "greetings (pending s) = []"
  shows "channel_step\<^sup>*\<^sup>* (channel_of s) (channel_of t) \<and> greetings (pending t) = []"
proof -
  from assms(1) obtain ms hs where x: "message_queue t = message_queue s @ ms" "pending t = pending s @ hs"
    "session_handlers hs = (if message_queue s = [] \<and> ms \<noteq> [] then [OnWrite] else [])"
    "sent t = sent s" "dropped t = dropped s"
    by (auto simp: extends_def)
  have "greetings hs = []" using x(3) greetings_session [of hs] by (simp split: if_splits)
  with x assms(2) show ?thesis
    using submit_all [of "channel_of s" "map fst ms"] by (simp add: channel_of_def)
qed

lemma channel_cong:
  "sent t = sent s \<Longrightarrow> pending t = pending s \<Longrightarrow> message_queue t = message_queue s \<Longrightarrow> dropped t = dropped s \<Longrightarrow>
   channel_of t = channel_of s"
  by (simp add: channel_of_def)

lemma channel_simps [simp]:
  "channel_of (release e s) = channel_of s" "channel_of (drop_session s) = channel_of s"
  "channel_of (expires_never s) = channel_of s" "channel_of (update_idle_timer e x s) = channel_of s"
  "channel_of (cancel_idle_timer s) = channel_of s" "channel_of (close s) = channel_of s"
  "channel_of (restart_if_idle e s) = channel_of s" "channel_of (s\<lparr>buf := b\<rparr>) = channel_of s"
  "channel_of (s\<lparr>buf := b, request := r\<rparr>) = channel_of s" "channel_of (s\<lparr>keep_cancelled := k\<rparr>) = channel_of s"
  "channel_of (s\<lparr>world := w\<rparr>) = channel_of s"
  by (rule channel_cong; simp add: drop_session_def expires_never_def update_idle_timer_def cancel_idle_timer_def
        close_def restart_if_idle_def)+

lemma channel_pending [simp]: "greeting h = [] \<Longrightarrow> channel_of (add_pending h s) = channel_of s"
  by (simp add: channel_of_def add_pending_def)

lemma channel_grows:
  "grows n0 s t \<Longrightarrow> greetings (pending s) = [] \<Longrightarrow> channel_step\<^sup>*\<^sup>* (channel_of s) (channel_of t)"
  using channel_extends by (auto simp: grows_def)

lemma channel_dispatched:
  "dispatched n0 e s t \<Longrightarrow> greetings (pending s) = [] \<Longrightarrow> channel_step\<^sup>*\<^sup>* (channel_of s) (channel_of t)"
  by (auto simp: dispatched_def channel_grows)

text \<open>One write of the control connection, with the queue and the tokens behind it.\<close>

lemma channel_write:
  assumes "op_inv n0 s" and "greetings (pending s) = []"
  shows "sall (\<lambda>t. channel_step\<^sup>*\<^sup>* (channel_of s) (channel_of t)) (on_write e s)"
proof (cases "ec_of e = Success \<and> message_queue s \<noteq> []")
  case True
  then obtain b t ms where ms: "message_queue s = (b, t) # ms" by (cases "message_queue s") auto
  let ?s1 = "s\<lparr>sent := sent s @ [b]\<rparr>"
  have inv: "op_inv n0 ?s1" using assms(1) by (subst op_inv_cong [of _ s]) simp_all
  have "token_fits (map_of (operators ?s1)) t" using assms(1) ms by (auto simp: op_inv_def)
  then have "sall (grows n0 ?s1) (run_token t ?s1)" using inv by (intro run_token_grows)
  moreover have "sall (\<lambda>t. channel_step\<^sup>*\<^sup>* (channel_of s) (channel_of t))
      (do_write_message e (release e (u\<lparr>message_queue := tl (message_queue u)\<rparr>)))" if grown: "grows n0 ?s1 u" for u
  proof -
    let ?d = "\<lparr>ch_written = sent s @ [b], ch_waiting = map fst ms, ch_lost = dropped s\<rparr>"
    let ?v = "u\<lparr>message_queue := tl (message_queue u)\<rparr>"
    have "channel_of s = \<lparr>ch_written = sent s, ch_waiting = b # map fst ms, ch_lost = dropped s\<rparr>"
      using ms assms(2) by (simp add: channel_of_def)
    then have one: "channel_step (channel_of s) ?d" using channel_step.deliver [of "channel_of s" b "map fst ms"] by simp
    obtain ns where n: "message_queue u = (b, t) # ms @ ns" "sent u = sent s @ [b]" "dropped u = dropped s"
      using grown ms by (auto simp: grows_def extends_def)
    have "greetings (pending u) = []"
      using channel_extends [of ?s1 u] grown assms(2) by (simp add: grows_def)
    then have "channel_of ?v = ?d\<lparr>ch_waiting := ch_waiting ?d @ map fst ns\<rparr>"
      using n by (simp add: channel_of_def)
    then have "channel_step\<^sup>*\<^sup>* (channel_of s) (channel_of ?v)"
      using one submit_all [of ?d "map fst ns"] by simp
    then show ?thesis by (auto simp: do_write_message_def)
  qed
  ultimately have "sall (\<lambda>u. sall (\<lambda>t. channel_step\<^sup>*\<^sup>* (channel_of s) (channel_of t))
      (do_write_message e (release e (u\<lparr>message_queue := tl (message_queue u)\<rparr>)))) (run_token t ?s1)"
    by (rule sall_mono)
  with True ms show ?thesis by (simp add: on_write_def)
next
  case False
  have "channel_of (s\<lparr>message_queue := [], dropped := dropped s @ map fst (message_queue s)\<rparr>) =
      channel_of s\<lparr>ch_waiting := [], ch_lost := ch_lost (channel_of s) @ ch_waiting (channel_of s)\<rparr>"
    using assms(2) by (simp add: channel_of_def)
  then have "channel_step (channel_of s) (channel_of (s\<lparr>message_queue := [], dropped := dropped s @ map fst (message_queue s)\<rparr>))"
    by (simp add: channel_step.abandon)
  with False show ?thesis by (auto simp: on_write_def split: list.split)
qed

lemma channel_read:
  assumes "op_inv n0 s" and "greetings (pending s) = []"
  shows "sall (\<lambda>t. channel_step\<^sup>*\<^sup>* (channel_of s) (channel_of t)) (on_read e s)"
proof -
  have "sall (\<lambda>u. channel_step\<^sup>*\<^sup>* (channel_of s) (channel_of (do_read u)))
      (handle_read e n (expires_never (s\<lparr>buf := b\<rparr>)))" for n b
  proof -
    let ?t = "expires_never (s\<lparr>buf := b\<rparr>)"
    have "op_inv n0 ?t" using assms(1) by (subst op_inv_never, subst op_inv_cong [of _ s]) simp_all
    then show ?thesis
    proof (rule sall_mono [OF handle_read_summary], elim exE conjE)
      fix u v b' r assume d: "dispatched n0 e v u" and v: "v = ?t\<lparr>buf := b', request := r\<rparr>"
      then have "channel_of v = channel_of s" "greetings (pending v) = []" using assms(2) by simp_all (simp add: expires_never_def)
      with channel_dispatched [OF d] show "channel_step\<^sup>*\<^sup>* (channel_of s) (channel_of (do_read u))"
        by (simp add: do_read_def)
    qed
  qed
  then show ?thesis by (auto simp: on_read_def Let_def split: ec.split)
qed

lemma channel_body:
  assumes inv: "op_inv n0 s" and srv: "in_service s" and h: "h \<in> set (pending s)"
  shows "sall (\<lambda>t. channel_step\<^sup>*\<^sup>* (channel_of s) (channel_of t)) (handler_body e h (s\<lparr>pending := remove1 h (pending s)\<rparr>))"
proof -
  let ?s = "s\<lparr>pending := remove1 h (pending s)\<rparr>"
  have nb: "\<forall>b. OnBanner b \<notin> set (pending s)" using no_banner [OF srv] by blast
  have g: "greetings (pending ?s) = []" and same: "channel_of ?s = channel_of s"
    using greetings_remove [OF nb] greetings_none [OF nb] by (simp_all add: channel_of_def)
  have inv': "op_inv n0 ?s" by (rule op_inv_taken [OF inv])
  have "sall (\<lambda>t. channel_step\<^sup>*\<^sup>* (channel_of ?s) (channel_of t)) (handler_body e h ?s)"
  proof (cases "handler_ref h")
    case None
    then show ?thesis
      using nb h channel_write [OF inv' g] channel_read [OF inv' g]
      by (cases h) (auto simp: handler_body_def on_idle_def start_idle_timer_def)
  next
    case (Some i)
    then have r: "handler_ref h \<noteq> None" by simp
    show ?thesis
      by (rule sall_mono [OF operator_handler_grows [OF inv h r]]) (rule channel_grows [OF _ g])
  qed
  then show ?thesis unfolding same .
qed

lemma channel_greeted:
  assumes "starting s" and "h \<in> set (pending s)"
  shows "sall (\<lambda>t. channel_step\<^sup>*\<^sup>* (channel_of s) (channel_of t)) (handler_body e h (s\<lparr>pending := remove1 h (pending s)\<rparr>))"
proof -
  from assms obtain b where b: "pending s = [OnBanner b]" "h = OnBanner b" and s: "message_queue s = []" "sent s = []" "dropped s = []"
    by (auto simp: starting_def)
  have c: "channel_of s = \<lparr>ch_written = [], ch_waiting = [b], ch_lost = []\<rparr>" using b s by (simp add: channel_of_def)
  have "channel_step (channel_of s) \<lparr>ch_written = [b], ch_waiting = [], ch_lost = []\<rparr>"
    using channel_step.deliver [of "channel_of s" b "[]"] by (simp add: c)
  moreover have "channel_step (channel_of s) \<lparr>ch_written = [], ch_waiting = [], ch_lost = [b]\<rparr>"
    using channel_step.abandon [of "channel_of s"] by (simp add: c)
  ultimately show ?thesis
    using b s by (auto simp: handler_body_def on_banner_def start_idle_timer_def do_read_def)
       (simp_all add: channel_of_def)
qed

lemma channel_completion:
  assumes "op_inv n0 s" and "shape s" and "deliverable h s" and "complete e h s = Inr t"
  shows "channel_step\<^sup>*\<^sup>* (channel_of s) (channel_of t)"
proof -
  have h: "h \<in> set (pending s)" using assms(3) by (simp add: deliverable_def)
  have "\<not> destroyed s" using assms(4) by (auto simp: complete_def)
  with assms(2) have "starting s \<or> in_service s" by (auto simp: shape_def)
  then have "sall (\<lambda>t. channel_step\<^sup>*\<^sup>* (channel_of s) (channel_of t)) (handler_body e h (s\<lparr>pending := remove1 h (pending s)\<rparr>))"
    using channel_greeted channel_body [OF assms(1)] h by blast
  with assms(4) show ?thesis by (auto simp: complete_def sbind_Inr_iff split: if_splits)
qed

definition fresh_channel :: "channel \<Rightarrow> bool" where
  "fresh_channel c \<longleftrightarrow> (\<exists>b. c = \<lparr>ch_written = [], ch_waiting = [b], ch_lost = []\<rparr>)"

interpretation replies: simulation "started n0" "sess_step E" "\<lambda>s. op_inv n0 s \<and> shape s" channel_of fresh_channel channel_step
proof unfold_locales
  show "op_inv n0 t \<and> shape t" if "op_inv n0 s \<and> shape s" "sess_step E s t" for s t :: "'a sess"
    using that op_inv_step [of n0 s E t] by (auto elim!: sess_stepE intro: complete_shape shape_world)
  show "channel_step\<^sup>*\<^sup>* (channel_of s) (channel_of t)" if "op_inv n0 s \<and> shape s" "sess_step E s t" for s t :: "'a sess"
    using that by (auto elim!: sess_stepE intro: channel_completion)
  show "fresh_channel (channel_of s)" if "started n0 s" for s :: "'a sess"
    using that by (auto simp: started_def new_session_def start_def new_context_def add_pending_def Let_def
        fresh_channel_def channel_of_def)
qed (auto intro: op_inv_started shape_started)

subsection \<open>The login\<close>

datatype phase = Guest string | Member string bool

text \<open>What a request does to the login: the specification, independent of the code.\<close>

fun login_spec :: "config \<Rightarrow> string \<Rightarrow> string \<Rightarrow> phase \<Rightarrow> phase" where
  "login_spec c cmd arg (Member u a) = Member u a"
| "login_spec c cmd arg (Guest u) =
     (if cmd = ''USER'' then Guest arg
      else if cmd = ''PASS'' \<and> u \<noteq> [] then Member u (anonymous_name c u)
      else Guest u)"

definition phase_of :: "'w sess \<Rightarrow> phase" where
  "phase_of s = (if verified s then Member (user s) (is_anonymous s) else Guest (user s))"

text \<open>The request that a completed read brings, if the line holds one.\<close>

definition heard :: "'w env \<Rightarrow> handler \<Rightarrow> 'w sess \<Rightarrow> ftp_request option" where
  "heard e h s =
     (if h = OnRead \<and> ec_of e = Success then
        (case parse_line (take (read_n e) (buf s @ chunk e)) (request s) of
           (built, r) \<Rightarrow> if built then Some r else None)
      else None)"

definition phase_after :: "config \<Rightarrow> ftp_request option \<Rightarrow> phase \<Rightarrow> phase" where
  "phase_after c r p = (case r of None \<Rightarrow> p | Some q \<Rightarrow> login_spec c (command q) (body q) p)"

lemma phase_login: "login t = login s \<Longrightarrow> phase_of t = phase_of s"
  by (simp add: login_def phase_of_def)

lemma phase_kept: "login_kept s t \<Longrightarrow> phase_of t = phase_of s"
  by (rule phase_login) (simp add: login_kept_def)

lemma phase_after_member [simp]: "verified s \<Longrightarrow> phase_after c r (phase_of s) = phase_of s"
  by (simp add: phase_after_def phase_of_def split: option.split)

lemma validate_phase:
  "\<not> verified s \<Longrightarrow>
   sall (\<lambda>(valid, t). phase_of t = (if user s = [] then Guest [] else Member (user s) (anonymous_name (cfg e) (user s)))) (validate e s)"
  unfolding validate_def anonymous_name_def [symmetric] by (simp add: reply_eq phase_of_def)

lemma phase_enqueue [simp]: "phase_of (enqueue b m s) = phase_of s" "phase_of (s\<lparr>password := pw\<rparr>) = phase_of s"
  by (simp_all add: phase_of_def)

lemma auth_phase:
  assumes "\<not> verified s"
  shows "sall (\<lambda>t. phase_of t = login_spec (cfg e) (command (request s)) (body (request s)) (phase_of s)) (auth_op e s)"
proof -
  have g: "phase_of s = Guest (user s)" using assms by (simp add: phase_of_def)
  consider "command (request s) = ''USER''" | "command (request s) = ''PASS''"
    | "command (request s) \<noteq> ''USER''" "command (request s) \<noteq> ''PASS''" by blast
  then show ?thesis
  proof cases
    case 1
    with assms show ?thesis unfolding g by (simp add: auth_op_def reply_eq) (simp add: phase_of_def)
  next
    case 2
    let ?s = "s\<lparr>password := body (request s)\<rparr>"
    have "sall (\<lambda>(valid, t). phase_of t = (if user ?s = [] then Guest [] else Member (user ?s) (anonymous_name (cfg e) (user ?s))))
        (validate e ?s)" using assms by (intro validate_phase) simp
    then have "sall (\<lambda>t. phase_of t = (if user s = [] then Guest [] else Member (user s) (anonymous_name (cfg e) (user s))))
        (sbind (validate e ?s) (\<lambda>(valid, s). if valid then reply e (get_code_string logged_on) s else Inr s))"
      by (rule sall_step2) (simp add: reply_eq)
    moreover have "auth_op e s = sbind (validate e ?s) (\<lambda>(valid, s). if valid then reply e (get_code_string logged_on) s else Inr s)"
      by (simp add: auth_op_def 2)
    moreover have "login_spec (cfg e) (command (request s)) (body (request s)) (Guest (user s)) =
        (if user s = [] then Guest [] else Member (user s) (anonymous_name (cfg e) (user s)))" by (simp add: 2)
    ultimately show ?thesis unfolding g by (simp only:)
  next
    case 3
    then show ?thesis unfolding g by (simp add: auth_op_def reply_eq g)
  qed
qed

lemma run_phase:
  assumes "guest s" and "\<not> verified s"
  shows "sall (\<lambda>t. phase_of t = login_spec (cfg e) (command (request s)) (body (request s)) (phase_of s)) (run_op e AuthOp s)"
proof -
  let ?s0 = "basic_op_ctor (s\<lparr>next_op := Suc (next_op s)\<rparr>)"
  let ?s1 = "?s0\<lparr>operators := operators ?s0 @ [(next_op s, Plain AuthOp)]\<rparr>"
  have "login ?s1 = login s" by simp
  then have p: "phase_of ?s1 = phase_of s" by (rule phase_login)
  have v: "\<not> verified ?s1" using assms(2) by (simp add: basic_op_ctor_def)
  have r: "request ?s1 = request s" by (simp add: basic_op_ctor_def)
  have "lookup_op (next_op s) ?s1 = Some (Plain AuthOp)"
    using assms(1) by (simp add: lookup_op_def basic_op_ctor_def guest_def)
  moreover have "phase_of (release e t) = phase_of t" for t :: "'a sess" by (rule phase_login) simp
  ultimately show ?thesis
    using auth_phase [OF v, of e] unfolding r p
    by (simp add: run_op_def construct_def Let_def do_operation_def)
qed

lemma phase_read:
  assumes "guest s" and "\<not> verified s" and "ec_of e = Success"
  shows "sall (\<lambda>t. phase_of t = phase_after (cfg e) (heard e OnRead s) (phase_of s)) (on_read e s)"
proof -
  obtain built r where p: "parse_line (take (read_n e) (buf s @ chunk e)) (request s) = (built, r)"
    by (cases "parse_line (take (read_n e) (buf s @ chunk e)) (request s)")
  let ?t = "expires_never (s\<lparr>buf := buf s @ chunk e\<rparr>)"
  let ?u = "?t\<lparr>buf := drop (read_n e) (buf s @ chunk e), request := r\<rparr>"
  have frame: "buf ?t = buf s @ chunk e" "request ?t = request s" by (simp_all add: expires_never_def)
  have u: "guest ?u" "login ?u = login s" "request ?u = r" using assms(1) by simp_all
  then have v: "\<not> verified ?u" "phase_of ?u = phase_of s" using assms(2) by (simp_all add: login_def phase_of_def)
  have same: "phase_of (do_read x) = phase_of x" "phase_of (restart_if_idle e x) = phase_of x" for x :: "'a sess"
    by (rule phase_login; simp add: do_read_def)+
  have "regist_all_operation ''AUTH'' = Some AuthOp" by (simp add: registered registrations_def)
  then have "sall (\<lambda>x. phase_of (do_read x) = phase_after (cfg e) (heard e OnRead s) (phase_of s)) (handle_read e (read_n e) ?t)"
    using run_phase [OF u(1) v(1), of e] v p u(3) assms(3)
    by (auto simp: handle_read_def frame Let_def dispatch_task_def heard_def phase_after_def same)
  with assms(3) show ?thesis by (simp add: on_read_def)
qed

lemma phase_completion:
  assumes "op_inv n0 s" and "login_inv (cfg e) s" and "complete e h s = Inr t"
  shows "phase_of t = phase_after (cfg e) (heard e h s) (phase_of s)"
proof (cases "verified s")
  case True
  with verified_completion [OF assms(1) True, of e h] assms(3) show ?thesis by (simp add: phase_kept)
next
  case False
  show ?thesis
  proof (cases "h = OnRead \<and> ec_of e = Success")
    case True
    let ?s = "s\<lparr>pending := remove1 h (pending s)\<rparr>"
    have "guest ?s" "\<not> verified ?s" using False assms(2) by (simp_all add: login_inv_def)
    with True have "sall (\<lambda>t. phase_of t = phase_after (cfg e) (heard e h s) (phase_of s)) (handler_body e h ?s)"
      using phase_read [of ?s e] by (simp add: handler_body_def heard_def) (simp add: phase_of_def)
    moreover have "phase_of (drop_session (release e u)) = phase_of u" for u :: "'a sess" by (rule phase_login) simp
    ultimately show ?thesis using assms(3) by (auto simp: complete_def sbind_Inr_iff split: if_splits)
  next
    case other: False
    with wordless_completion [OF assms(1), of h e] assms(3) have "phase_of t = phase_of s" by (auto simp: phase_kept)
    moreover have "heard e h s = None" using other by (auto simp: heard_def)
    ultimately show ?thesis by (simp add: phase_after_def)
  qed
qed

definition login_step :: "config \<Rightarrow> phase \<Rightarrow> phase \<Rightarrow> bool" where
  "login_step c p q \<longleftrightarrow> (\<exists>cmd arg. q = login_spec c cmd arg p)"

lemma login_stepI: "login_step c p (phase_after c r p)"
proof (cases r)
  case None
  have "login_spec c [] [] p = p" by (cases p) simp_all
  with None show ?thesis unfolding login_step_def phase_after_def by (metis option.case(1))
qed (auto simp: login_step_def phase_after_def)

interpretation logins_refined: simulation "started n0" "sess_step (\<lambda>e. cfg e = c)"
  "\<lambda>s. op_inv n0 s \<and> login_inv c s" phase_of "\<lambda>p. p = Guest []" "login_step c"
proof unfold_locales
  fix s t :: "'a sess"
  assume i: "op_inv n0 s \<and> login_inv c s" and st: "sess_step (\<lambda>e. cfg e = c) s t"
  from st show "op_inv n0 t \<and> login_inv c t"
  proof (cases rule: sess_step.cases)
    case (completion e h)
    with i show ?thesis using op_inv_step [OF _ st] by (auto intro: login_completion)
  next
    case (world_changes w)
    with i show ?thesis using op_inv_step [OF _ st] by (auto simp: login_inv_def)
  qed
  from st show "(login_step c)\<^sup>*\<^sup>* (phase_of s) (phase_of t)"
  proof (cases rule: sess_step.cases)
    case (completion e h)
    with i phase_completion [of n0 s e h t] login_stepI [of c "phase_of s" "heard e h s"] show ?thesis by auto
  next
    case (world_changes w)
    then show ?thesis by (simp add: phase_of_def)
  qed
qed (auto simp: op_inv_started login_started started_def new_session_def start_def new_context_def add_pending_def Let_def phase_of_def)

end
