(* ===== verification/Request_Effects.thy ===== *)
theory Request_Effects
  imports Refinement
begin

text \<open>
  What one request does, over the whole chain from the completed read to the release of its
  operator: which requests change the file system or the current directory and how, and how
  many replies a request gets.
\<close>

subsection \<open>The effects\<close>

text \<open>The change a request may make, by the class of its operator.\<close>

definition creates :: "'w env \<Rightarrow> 'w sess \<Rightarrow> ftp_request \<Rightarrow> 'w \<Rightarrow> bool" where
  "creates e s r w \<longleftrightarrow> write_enable (cfg e) \<and> body r \<noteq> [] \<and>
     os_exists (sys e) (world s) (get_target_path s (body r)) = Inr False \<and>
     os_create_directory (sys e) (world s) (get_target_path s (body r)) = Inr w"

definition stores :: "'w env \<Rightarrow> 'w sess \<Rightarrow> ftp_request \<Rightarrow> 'w \<Rightarrow> bool" where
  "stores e s r w \<longleftrightarrow> body r \<noteq> [] \<and>
     (is_anonymous s \<longrightarrow> os_exists (sys e) (world s) (get_target_path s (body r)) = Inr False) \<and>
     w = snd (os_open_write (sys e) (world s) (get_target_path s (body r)))"

definition enters :: "'w env \<Rightarrow> 'w sess \<Rightarrow> path \<Rightarrow> path \<Rightarrow> bool" where
  "enters e s q p \<longleftrightarrow> os_exists (sys e) (world s) (get_target_path s q) = Inr True \<and>
     os_is_directory (sys e) (world s) (get_target_path s q) = Inr True \<and>
     os_canonical (sys e) (world s) (get_target_path s q) = Inr p"

definition file_effect :: "'w env \<Rightarrow> op_class \<Rightarrow> ftp_request \<Rightarrow> 'w sess \<Rightarrow> 'w sess \<Rightarrow> bool" where
  "file_effect e c r s t \<longleftrightarrow>
     current_path t = current_path s \<and>
       (world t = world s \<or> c = CreateDirOp \<and> creates e s r (world t) \<or> c = RecvFileOp \<and> stores e s r (world t)) \<or>
     world t = world s \<and>
       (c = ChangeWorkingDirOp \<and> enters e s (body r) (current_path t) \<or>
        c = CdToParentOp \<and> enters e s ''..'' (current_path t))"

lemma file_effect_same: "world t = world s \<Longrightarrow> current_path t = current_path s \<Longrightarrow> file_effect e c r s t"
  by (simp add: file_effect_def)

lemma file_effect_cong:
  assumes "file_effect e c r s t" and "world t' = world t" "current_path t' = current_path t"
    and "world s' = world s" "current_path s' = current_path s" "is_anonymous s' = is_anonymous s"
  shows "file_effect e c r s' t'"
proof -
  have "get_target_path s' p = get_target_path s p" for p using assms(5) by (simp add: get_target_path_def)
  with assms show ?thesis unfolding file_effect_def creates_def stores_def enters_def by simp
qed

lemma place_account: "account t = account s \<Longrightarrow> world t = world s \<and> current_path t = current_path s"
  by (simp add: account_def)

text \<open>The replies a request gets.\<close>

definition transfer_class :: "op_class \<Rightarrow> bool" where
  "transfer_class c \<longleftrightarrow> c = SendFileOp \<or> c = RecvFileOp \<or> c = ListOp"

definition answered :: "'w env \<Rightarrow> op_class \<Rightarrow> 'w sess \<Rightarrow> 'w sess \<Rightarrow> bool" where
  "answered e c s t \<longleftrightarrow> (\<exists>rs. submitted t = submitted s @ rs \<and> length rs \<le> 2 \<and>
     (rs = [] \<longrightarrow> transfer_class c \<and> OnAccept (next_op s) \<in> set (pending t)) \<and>
     (length rs = 2 \<longrightarrow> c = RecvFileOp \<and> os_pipe (sys e) (world t) = None))"

lemma answered_once: "submitted t = submitted s @ [b] \<Longrightarrow> answered e c s t"
  unfolding answered_def by (intro exI [of _ "[b]"]) simp

lemma answered_cong:
  assumes "answered e c s t" and "submitted t' = submitted t" "set (pending t) \<subseteq> set (pending t')" "world t' = world t"
    and "submitted s' = submitted s" "next_op s' = next_op s"
  shows "answered e c s' t'"
  using assms unfolding answered_def by auto

subsection \<open>Operators that answer on the control connection\<close>

lemma control_place:
  "sall (\<lambda>t. file_effect e c (request s) s t) (ack_op e s)" "sall (\<lambda>t. file_effect e c (request s) s t) (syst_op e s)"
  "sall (\<lambda>t. file_effect e c (request s) s t) (print_working_dir_op e s)" "sall (\<lambda>t. file_effect e c (request s) s t) (stat_op e s)"
  "sall (\<lambda>t. file_effect e c (request s) s t) (property_op e s)" "sall (\<lambda>t. file_effect e c (request s) s t) (passive_mode_op e s)"
  "sall (\<lambda>t. file_effect e c (request s) s t) (size_op e s)" "sall (\<lambda>t. file_effect e c (request s) s t) (auth_op e s)"
  by (auto simp: ack_op_def syst_op_def print_working_dir_op_def stat_op_def property_op_def
        passive_mode_op_def size_op_def auth_op_def validate_def reply_eq Let_def intro!: sall_any file_effect_same)

lemma directory_found:
  "is_existing_directory e s p = Inr True \<longleftrightarrow>
     os_exists (sys e) (world s) p = Inr True \<and> os_is_directory (sys e) (world s) p = Inr True"
  by (auto simp: is_existing_directory_def sbind_Inr_iff)

lemma change_place:
  "sall (\<lambda>t. world t = world s \<and> (current_path t = current_path s \<or> enters e s q (current_path t)))
     (change_to e (get_target_path s q) s)"
  by (rule sallI) (auto simp: change_to_def sbind_Inr_iff reply_eq Let_def enters_def directory_found split: if_splits)

lemma directory_place:
  "sall (\<lambda>t. file_effect e ChangeWorkingDirOp (request s) s t) (change_working_dir_op e s)"
  "sall (\<lambda>t. file_effect e CdToParentOp (request s) s t) (cd_to_parent_op e s)"
  "sall (\<lambda>t. file_effect e CreateDirOp (request s) s t) (create_dir_op e s)"
proof -
  show "sall (\<lambda>t. file_effect e ChangeWorkingDirOp (request s) s t) (change_working_dir_op e s)"
    by (auto simp: change_working_dir_op_def reply_eq file_effect_def intro: sall_mono [OF change_place])
  show "sall (\<lambda>t. file_effect e CdToParentOp (request s) s t) (cd_to_parent_op e s)"
    by (auto simp: cd_to_parent_op_def file_effect_def intro: sall_mono [OF change_place])
  show "sall (\<lambda>t. file_effect e CreateDirOp (request s) s t) (create_dir_op e s)"
    unfolding create_dir_op_def Let_def
    by (cases "os_exists (sys e) (world s) (get_target_path s (body (request s)))";
        cases "os_create_directory (sys e) (world s) (get_target_path s (body (request s)))")
       (auto simp: reply_eq file_effect_def creates_def intro!: sall_any)
qed

lemma control_answers:
  "sall (\<lambda>t. \<exists>b. submitted t = submitted s @ [b]) (ack_op e s)" "sall (\<lambda>t. \<exists>b. submitted t = submitted s @ [b]) (syst_op e s)"
  "sall (\<lambda>t. \<exists>b. submitted t = submitted s @ [b]) (print_working_dir_op e s)"
  "sall (\<lambda>t. \<exists>b. submitted t = submitted s @ [b]) (stat_op e s)"
  "sall (\<lambda>t. \<exists>b. submitted t = submitted s @ [b]) (passive_mode_op e s)" "sall (\<lambda>t. \<exists>b. submitted t = submitted s @ [b]) (size_op e s)"
  "sall (\<lambda>t. \<exists>b. submitted t = submitted s @ [b]) (auth_op e s)"
  "sall (\<lambda>t. \<exists>b. submitted t = submitted s @ [b]) (change_working_dir_op e s)"
  "sall (\<lambda>t. \<exists>b. submitted t = submitted s @ [b]) (cd_to_parent_op e s)"
  "sall (\<lambda>t. \<exists>b. submitted t = submitted s @ [b]) (create_dir_op e s)"
  by (auto simp: ack_op_def syst_op_def print_working_dir_op_def stat_op_def
        passive_mode_op_def size_op_def auth_op_def validate_def change_working_dir_op_def cd_to_parent_op_def
        change_to_def create_dir_op_def reply_eq Let_def intro!: sall_any)

lemma property_answers:
  "command (request s) \<in> {''TYPE'', ''OPTS''} \<Longrightarrow> sall (\<lambda>t. \<exists>b. submitted t = submitted s @ [b]) (property_op e s)"
  by (auto simp: property_op_def reply_eq Let_def)

subsection \<open>Transfers\<close>

text \<open>The constructors: the file system changes only where a target is opened for writing.\<close>

definition replied :: "'w sess \<Rightarrow> 'w sess \<Rightarrow> nat \<Rightarrow> bool" where
  "replied s t n \<longleftrightarrow> (\<exists>rs. submitted t = submitted s @ rs \<and> length rs = n)"

lemma replied_simps [simp]:
  "replied s s n \<longleftrightarrow> n = 0" "replied s (enqueue b m s) n \<longleftrightarrow> n = 1"
  "replied s (open_fd fd t) n = replied s t n" "replied s (t\<lparr>world := w\<rparr>) n = replied s t n"
  "replied s (enqueue b m (open_fd fd t)) n = replied s (enqueue b m t) n"
  "replied s (enqueue b m (s\<lparr>world := w\<rparr>)) n \<longleftrightarrow> n = 1"
  by (auto simp: replied_def open_fd_def)

lemma send_ctor_place:
  "sall (\<lambda>(f, t). world t = world s \<and> current_path t = current_path s \<and> next_op t = next_op s) (send_file_ctor e s)"
  unfolding send_file_ctor_def Let_def
  by (auto simp: write_message_eq open_fd_def intro!: sall_any)

lemma recv_ctor_place:
  "sall (\<lambda>(f, t). current_path t = current_path s \<and> (world t = world s \<or> stores e s (request s) (world t)) \<and>
     next_op t = next_op s) (recv_file_ctor e s)"
proof (cases "os_open_write (sys e) (world s) (get_target_path s (body (request s)))")
  case (Pair fd w)
  then show ?thesis
    unfolding recv_file_ctor_def Let_def
    by (cases "os_exists (sys e) (world s) (get_target_path s (body (request s)))")
       (auto simp: write_message_eq stores_def open_fd_def split: option.split)
qed

lemma send_ctor_answers:
  assumes "proper_fds e"
  shows "sall (\<lambda>(f, t). replied s t (if 0 < sf_fd f then 0 else 1)) (send_file_ctor e s)"
  using proper_fdsD(1) [OF assms] unfolding send_file_ctor_def Let_def
  by (auto simp: write_message_eq not_less order_less_le intro!: sall_any)

lemma recv_ctor_answers:
  assumes "proper_fds e"
  shows "sall (\<lambda>(f, t). replied s t (if 0 < rf_fd f then 0 else 1) \<or> replied s t 1 \<and> os_pipe (sys e) (world t) = None)
     (recv_file_ctor e s)"
proof (cases "os_open_write (sys e) (world s) (get_target_path s (body (request s)))")
  case (Pair fd w)
  with proper_fdsD(2) [OF assms Pair] show ?thesis
    unfolding recv_file_ctor_def Let_def
    by (auto simp: write_message_eq intro!: sall_any split: option.split)
qed

lemma fetch_answers:
  "sall (\<lambda>t. submitted t = submitted s \<and> OnAccept i \<in> set (pending t) \<or>
             (\<exists>b. submitted t = submitted s @ [b])) (fetch_passive_connection e i s)"
  by (simp add: fetch_passive_connection_def check_data_port_def write_message_eq add_pending_def)

subsection \<open>A request, from the factory to the release\<close>

text \<open>The state in which an operator that is not a transfer runs.\<close>

definition created :: "op_class \<Rightarrow> 'w sess \<Rightarrow> 'w sess" where
  "created c s = (let s0 = basic_op_ctor (s\<lparr>next_op := Suc (next_op s)\<rparr>)
                  in s0\<lparr>operators := operators s0 @ [(next_op s, Plain c)]\<rparr>)"

lemma created_frame [simp]:
  "world (created c s) = world s" "current_path (created c s) = current_path s" "request (created c s) = request s"
  "submitted (created c s) = submitted s" "is_anonymous (created c s) = is_anonymous s"
  "next_op (created c s) = Suc (next_op s)"
  by (simp_all add: created_def basic_op_ctor_def Let_def)

lemma created_found: "op_inv n0 s \<Longrightarrow> lookup_op (next_op s) (created c s) = Some (Plain c)"
  using op_inv_new(2) [OF _ ctor_effect_refl, of n0 s "Plain c"] by (simp add: created_def Let_def)

lemma construct_plain:
  "c \<noteq> SendFileOp \<Longrightarrow> c \<noteq> RecvFileOp \<Longrightarrow> construct e c s = Inr (next_op s, created c s)"
  by (cases c) (simp_all add: construct_def created_def Let_def)

lemma run_plain:
  assumes "op_inv n0 s" and "c \<noteq> SendFileOp" "c \<noteq> RecvFileOp"
  shows "sall P (run_op e c s) = sall (\<lambda>t. P (release e t)) (do_operation e (next_op s) (created c s))"
  by (simp add: run_op_def construct_plain [OF assms(2,3)])

lemma run_sending:
  assumes "op_inv n0 s"
    and "\<And>f t. Q f t \<Longrightarrow> sall (\<lambda>u. P (release e u)) (send_file_op e (next_op s) f (t\<lparr>operators := operators t @ [(next_op s, Sending f)]\<rparr>))"
    and "sall (\<lambda>(f, t). Q f t) (send_file_ctor e (basic_op_ctor (s\<lparr>next_op := Suc (next_op s)\<rparr>)))"
  shows "sall P (run_op e SendFileOp s)"
proof -
  have "sall (\<lambda>(f, t). Q f t \<and> ctor_effect (basic_op_ctor (s\<lparr>next_op := Suc (next_op s)\<rparr>)) t)
      (send_file_ctor e (basic_op_ctor (s\<lparr>next_op := Suc (next_op s)\<rparr>)))"
    by (rule sall_mono [OF sall_conj [OF assms(3) send_file_ctor_effect]]) auto
  then show ?thesis
    unfolding run_op_def construct_def Let_def
    by (auto simp: do_operation_def op_inv_new(2) [OF assms(1)] dest: assms(2) elim!: sall_mono)
qed

lemma run_receiving:
  assumes "op_inv n0 s"
    and "\<And>f t. Q f t \<Longrightarrow> sall (\<lambda>u. P (release e u)) (recv_file_op e (next_op s) f (t\<lparr>operators := operators t @ [(next_op s, Receiving f)]\<rparr>))"
    and "sall (\<lambda>(f, t). Q f t) (recv_file_ctor e (basic_op_ctor (s\<lparr>next_op := Suc (next_op s)\<rparr>)))"
  shows "sall P (run_op e RecvFileOp s)"
proof -
  have "sall (\<lambda>(f, t). Q f t \<and> ctor_effect (basic_op_ctor (s\<lparr>next_op := Suc (next_op s)\<rparr>)) t)
      (recv_file_ctor e (basic_op_ctor (s\<lparr>next_op := Suc (next_op s)\<rparr>)))"
    by (rule sall_mono [OF sall_conj [OF assms(3) recv_file_ctor_effect]]) auto
  then show ?thesis
    unfolding run_op_def construct_def Let_def
    by (auto simp: do_operation_def op_inv_new(2) [OF assms(1)] dest: assms(2) elim!: sall_mono)
qed

text \<open>The operations of the transfers start the wait for the data connection, or answer.\<close>

lemma fetch_place: "sall (\<lambda>t. world t = world s \<and> current_path t = current_path s) (fetch_passive_connection e i s)"
  by (simp add: fetch_passive_connection_def check_data_port_def write_message_eq add_pending_def)

lemma start_place:
  "sall (\<lambda>t. world t = world s \<and> current_path t = current_path s) (send_file_op e i f s)"
  "sall (\<lambda>t. world t = world s \<and> current_path t = current_path s) (recv_file_op e i g s)"
  using fetch_place [of "update_op i (Sending (f\<lparr>sf_token := True\<rparr>)) s" e i]
    fetch_place [of "update_op i (Receiving (g\<lparr>rf_token := True\<rparr>)) s" e i]
  by (simp_all add: send_file_op_def recv_file_op_def)

lemma fetch_world: "sall (\<lambda>t. world t = world s) (fetch_passive_connection e i s)"
  using fetch_place by (rule sall_mono) simp

lemma run_file_effect:
  assumes "op_inv n0 s"
  shows "sall (file_effect e c (request s) s) (run_op e c s)"
proof -
  let ?s0 = "basic_op_ctor (s\<lparr>next_op := Suc (next_op s)\<rparr>)"
  have s0: "world ?s0 = world s" "current_path ?s0 = current_path s" "request ?s0 = request s" "is_anonymous ?s0 = is_anonymous s"
    by (simp_all add: basic_op_ctor_def)
  have release: "world (release e t) = world t" "current_path (release e t) = current_path t" for t :: "'a sess"
    using place_account [OF account_release] by simp_all
  have plain: "sall (file_effect e c (request s) s) (run_op e c s)"
    if "c \<noteq> SendFileOp" "c \<noteq> RecvFileOp"
      "sall (\<lambda>t. file_effect e c (request s) (created c s) t) (do_operation e (next_op s) (created c s))"
    unfolding run_plain [OF assms that(1,2)] using that(3)
    by (rule sall_mono) (erule file_effect_cong; simp add: release)
  note found = created_found [OF assms]
  note ops = control_place [of e _ "created c s" for c] directory_place [of e "created c s" for c]
  note ops = ops [unfolded created_frame]
  show ?thesis
  proof (cases c)
    case SendFileOp
    show ?thesis unfolding SendFileOp
    proof (rule run_sending [OF assms])
      show "sall (\<lambda>(f, t). world t = world s \<and> current_path t = current_path s) (send_file_ctor e ?s0)"
        using send_ctor_place [of ?s0 e] unfolding s0 by (rule sall_mono) auto
      show "sall (\<lambda>u. file_effect e SendFileOp (request s) s (release e u))
          (send_file_op e (next_op s) f (t\<lparr>operators := operators t @ [(next_op s, Sending f)]\<rparr>))"
        if "world t = world s \<and> current_path t = current_path s" for f t
        using start_place(1) by (rule sall_mono) (use that in \<open>simp add: file_effect_same release\<close>)
    qed
  next
    case RecvFileOp
    show ?thesis unfolding RecvFileOp
    proof (rule run_receiving [OF assms])
      show "sall (\<lambda>(f, t). file_effect e RecvFileOp (request s) s t) (recv_file_ctor e ?s0)"
        using recv_ctor_place [of ?s0 e] by (rule sall_mono)
          (auto simp: file_effect_def s0 stores_def get_target_path_def)
      show "sall (\<lambda>u. file_effect e RecvFileOp (request s) s (release e u))
          (recv_file_op e (next_op s) f (t\<lparr>operators := operators t @ [(next_op s, Receiving f)]\<rparr>))"
        if "file_effect e RecvFileOp (request s) s t" for f t
        using start_place(2) by (rule sall_mono) (rule file_effect_cong [OF that]; simp add: release)
    qed
  next
    case ListOp
    show ?thesis
      by (rule plain) (auto simp: ListOp do_operation_def found list_op_def
            intro!: sall_mono [OF fetch_place] file_effect_same)
  qed (rule plain; simp add: do_operation_def found ops; fail)+
qed

text \<open>The replies: a transfer that could be prepared answers later, when its connection is accepted.\<close>

definition prepared :: "'w env \<Rightarrow> op_class \<Rightarrow> 'w sess \<Rightarrow> int \<Rightarrow> 'w sess \<Rightarrow> bool" where
  "prepared e c s fd t \<longleftrightarrow> replied s t (if 0 < fd then 0 else 1) \<or>
     c = RecvFileOp \<and> replied s t 1 \<and> os_pipe (sys e) (world t) = None"

lemma transfer_answered:
  assumes "prepared e c s fd t" and "transfer_class c" and "world u = world t"
    and "if 0 < fd then submitted u = submitted t \<and> OnAccept (next_op s) \<in> set (pending u) \<or> (\<exists>b. submitted u = submitted t @ [b])
         else submitted u = submitted t"
  shows "answered e c s u"
proof -
  from assms(1) obtain rs where rs: "submitted t = submitted s @ rs"
    "length rs = (if 0 < fd then 0 else 1) \<or> c = RecvFileOp \<and> length rs = 1 \<and> os_pipe (sys e) (world t) = None"
    by (auto simp: prepared_def replied_def split: if_splits)
  from assms(4) obtain qs where "submitted u = submitted t @ qs" "length qs \<le> (if 0 < fd then 1 else 0)"
    "qs = [] \<Longrightarrow> 0 < fd \<Longrightarrow> OnAccept (next_op s) \<in> set (pending u)"
    by (auto split: if_splits)
  with rs assms(2,3) show ?thesis
    unfolding answered_def by (intro exI [of _ "rs @ qs"]) (auto split: if_splits)
qed

lemma start_answers:
  "sall (\<lambda>t. world t = world s \<and> (if 0 < sf_fd f then submitted t = submitted s \<and> OnAccept i \<in> set (pending t) \<or>
       (\<exists>b. submitted t = submitted s @ [b]) else submitted t = submitted s)) (send_file_op e i f s)"
  "sall (\<lambda>t. world t = world s \<and> (if 0 < rf_fd g then submitted t = submitted s \<and> OnAccept i \<in> set (pending t) \<or>
       (\<exists>b. submitted t = submitted s @ [b]) else submitted t = submitted s)) (recv_file_op e i g s)"
  using sall_conj [OF fetch_world [of "update_op i (Sending (f\<lparr>sf_token := True\<rparr>)) s" e i] fetch_answers [of "update_op i (Sending (f\<lparr>sf_token := True\<rparr>)) s" i e]]
    sall_conj [OF fetch_world [of "update_op i (Receiving (g\<lparr>rf_token := True\<rparr>)) s" e i] fetch_answers [of "update_op i (Receiving (g\<lparr>rf_token := True\<rparr>)) s" i e]]
  by (simp_all add: send_file_op_def recv_file_op_def)

lemma run_answers:
  assumes "op_inv n0 s" and "proper_fds e" and "c = PropertyOp \<Longrightarrow> command (request s) \<in> {''TYPE'', ''OPTS''}"
  shows "sall (answered e c s) (run_op e c s)"
proof -
  let ?s0 = "basic_op_ctor (s\<lparr>next_op := Suc (next_op s)\<rparr>)"
  have s0: "submitted ?s0 = submitted s" by (simp add: basic_op_ctor_def)
  have release: "world (release e t) = world t" for t :: "'a sess" using place_account [OF account_release] by simp
  have plain: "sall (answered e c s) (run_op e c s)"
    if "c \<noteq> SendFileOp" "c \<noteq> RecvFileOp"
      "sall (\<lambda>t. \<exists>b. submitted t = submitted s @ [b]) (do_operation e (next_op s) (created c s))"
    unfolding run_plain [OF assms(1) that(1,2)] using that(3)
    by (rule sall_mono) (auto intro: answered_once)
  note found = created_found [OF assms(1)]
  note ops = control_answers [of "created c s" e for c] property_answers [of "created c s" e for c]
  note ops = ops [unfolded created_frame]
  show ?thesis
  proof (cases c)
    case SendFileOp
    show ?thesis unfolding SendFileOp
    proof (rule run_sending [OF assms(1)])
      show "sall (\<lambda>(f, t). prepared e SendFileOp s (sf_fd f) t) (send_file_ctor e ?s0)"
        using send_ctor_answers [OF assms(2), of ?s0] by (rule sall_mono) (auto simp: prepared_def replied_def s0)
      show "sall (\<lambda>u. answered e SendFileOp s (release e u))
          (send_file_op e (next_op s) f (t\<lparr>operators := operators t @ [(next_op s, Sending f)]\<rparr>))"
        if "prepared e SendFileOp s (sf_fd f) t" for f t
        using start_answers(1)
        by (rule sall_mono) (rule transfer_answered [OF that]; auto simp: transfer_class_def release split: if_splits)
    qed
  next
    case RecvFileOp
    show ?thesis unfolding RecvFileOp
    proof (rule run_receiving [OF assms(1)])
      show "sall (\<lambda>(f, t). prepared e RecvFileOp s (rf_fd f) t) (recv_file_ctor e ?s0)"
        using recv_ctor_answers [OF assms(2), of ?s0] by (rule sall_mono) (auto simp: prepared_def replied_def s0)
      show "sall (\<lambda>u. answered e RecvFileOp s (release e u))
          (recv_file_op e (next_op s) f (t\<lparr>operators := operators t @ [(next_op s, Receiving f)]\<rparr>))"
        if "prepared e RecvFileOp s (rf_fd f) t" for f t
        using start_answers(2)
        by (rule sall_mono) (rule transfer_answered [OF that]; auto simp: transfer_class_def release split: if_splits)
    qed
  next
    case ListOp
    have "prepared e ListOp s 1 (created ListOp s)" by (simp add: prepared_def replied_def)
    note step = transfer_answered [OF this]
    have "sall (\<lambda>t. answered e ListOp s (release e t)) (fetch_passive_connection e (next_op s) (created ListOp s))"
      using sall_conj [OF fetch_world fetch_answers]
      by (rule sall_mono) (rule step; auto simp: transfer_class_def release)
    then show ?thesis unfolding ListOp by (simp add: run_plain [OF assms(1)] do_operation_def found list_op_def)
  next
    case PropertyOp
    then have "command (request s) \<in> {''TYPE'', ''OPTS''}" by (rule assms(3))
    then have "sall (\<lambda>t. \<exists>b. submitted t = submitted s @ [b]) (property_op e (created c s))" by (rule ops(11))
    then show ?thesis by (intro plain) (simp_all add: PropertyOp do_operation_def found)
  qed (rule plain; simp add: do_operation_def found ops; fail)+
qed

subsection \<open>One completion\<close>

text \<open>The class that serves a request: before the login all of them are served by one.\<close>

definition served_by :: "'w sess \<Rightarrow> ftp_request \<Rightarrow> op_class option" where
  "served_by s r = (if \<not> verified s then Some AuthOp
     else if command r = ''USER'' \<or> command r = ''PASS'' then None
     else map_of registrations (command r))"

definition request_effect :: "'w env \<Rightarrow> ftp_request \<Rightarrow> 'w sess \<Rightarrow> 'w sess \<Rightarrow> bool" where
  "request_effect e r s t \<longleftrightarrow> (case served_by s r of
       None \<Rightarrow> world t = world s \<and> current_path t = current_path s
     | Some c \<Rightarrow> file_effect e c r s t)"

definition request_answered :: "'w env \<Rightarrow> ftp_request \<Rightarrow> 'w sess \<Rightarrow> 'w sess \<Rightarrow> bool" where
  "request_answered e r s t \<longleftrightarrow> (case served_by s r of
       None \<Rightarrow> \<exists>b. submitted t = submitted s @ [b]
     | Some c \<Rightarrow> answered e c s t)"

text \<open>The command words of the classes that do more than answer.\<close>

lemma answering_commands:
  assumes "served_by s r = Some c"
  shows "(transfer_class c \<longrightarrow> command r \<in> {''RETR'', ''STOR'', ''LIST''}) \<and>
    (c = RecvFileOp \<longrightarrow> verified s \<and> command r = ''STOR'') \<and>
    (c = CreateDirOp \<longrightarrow> verified s \<and> command r \<in> {''MKD'', ''XMKD''}) \<and>
    (c = ChangeWorkingDirOp \<longrightarrow> verified s \<and> command r \<in> {''CWD'', ''XCWD''}) \<and>
    (c = CdToParentOp \<longrightarrow> verified s \<and> command r \<in> {''CDUP'', ''XCUP''})"
  using assms by (auto simp: served_by_def transfer_class_def registrations_def split: if_splits)

lemma property_commands: "map_of registrations cmd = Some PropertyOp \<Longrightarrow> cmd \<in> {''TYPE'', ''OPTS''}"
  by (auto simp: registrations_def split: if_splits)

lemma dispatch_eq:
  "dispatch_task e s = (case served_by s (request s) of
     None \<Rightarrow> Inr (False, enqueue (if command (request s) = ''USER'' then get_code_string_info not_allowed (''Can'' @ [CHR 0x27] @ ''t change to another user.'')
        else if command (request s) = ''PASS'' then get_code_string_info logged_on ''Already logged in.'' else get_code_string syntax_error) NoToken s)
   | Some c \<Rightarrow> sbind (run_op e c s) (\<lambda>t. Inr (True, t)))"
proof -
  have "regist_all_operation ''AUTH'' = Some AuthOp" by (simp add: registered registrations_def)
  then show ?thesis
    by (auto simp: dispatch_task_def served_by_def reply_eq registered split: option.split)
qed

lemma member_dispatch:
  assumes "verified s" and "command (request s) \<notin> {''USER'', ''PASS''}"
  shows "dispatch_task e s =
     (case map_of registrations (command (request s)) of
        None \<Rightarrow> Inr (False, enqueue (get_code_string syntax_error) NoToken s)
      | Some c \<Rightarrow> sbind (run_op e c s) (\<lambda>t. Inr (True, t)))"
  using assms by (simp add: dispatch_eq served_by_def split: option.split)

lemma anonymous_upload_refused:
  assumes "is_anonymous s" and "body (request s) \<noteq> []"
    and "os_exists (sys e) (world s) (get_target_path s (body (request s))) = Inr True"
  shows "\<exists>f t. recv_file_ctor e s = Inr (f, t) \<and> world t = world s \<and> open_fds t = open_fds s \<and>
     submitted t = submitted s @ [get_code_string_info upload_fail ''Could not create file.''] \<and>
     recv_file_op e i f t = Inr t"
  using assms by (simp add: recv_file_ctor_def write_message_eq Let_def recv_file_op_def)

lemma dispatch_effect:
  assumes "op_inv n0 s"
  shows "sall (\<lambda>(b, t). request_effect e (request s) s t) (dispatch_task e s)"
    and "proper_fds e \<Longrightarrow> sall (\<lambda>(b, t). request_answered e (request s) s t) (dispatch_task e s)"
proof -
  show "sall (\<lambda>(b, t). request_effect e (request s) s t) (dispatch_task e s)"
    unfolding dispatch_eq request_effect_def
    using run_file_effect [OF assms, of e] by (auto split: option.split elim!: sall_mono)
  show "proper_fds e \<Longrightarrow> sall (\<lambda>(b, t). request_answered e (request s) s t) (dispatch_task e s)"
    unfolding dispatch_eq request_answered_def
    using run_answers [OF assms, of e] property_commands
    by (auto simp: served_by_def split: option.split elim!: sall_mono)
qed

lemma served_same: "verified s' = verified s \<Longrightarrow> served_by s' r = served_by s r"
  by (simp add: served_by_def)

lemma request_effect_cong:
  assumes "request_effect e r s t" and "world t' = world t" "current_path t' = current_path t"
    and "world s' = world s" "current_path s' = current_path s" "is_anonymous s' = is_anonymous s" "verified s' = verified s"
  shows "request_effect e r s' t'"
  using assms served_same [of s' s r] unfolding request_effect_def
  by (auto split: option.splits intro: file_effect_cong)

lemma request_answered_cong:
  assumes "request_answered e r s t" and "submitted t' = submitted t" "set (pending t) \<subseteq> set (pending t')" "world t' = world t"
    and "submitted s' = submitted s" "next_op s' = next_op s" "verified s' = verified s"
  shows "request_answered e r s' t'"
  using assms served_same [of s' s r] unfolding request_answered_def
  by (auto split: option.splits intro: answered_cong)

text \<open>What a completion does, by the request that it brings.\<close>

definition effect :: "'w env \<Rightarrow> ftp_request option \<Rightarrow> 'w sess \<Rightarrow> 'w sess \<Rightarrow> bool" where
  "effect e q s t \<longleftrightarrow> (case q of
       None \<Rightarrow> world t = world s \<and> current_path t = current_path s
     | Some r \<Rightarrow> request_effect e r s t \<and> (proper_fds e \<longrightarrow> request_answered e r s t))"

text \<open>The parts of two states an effect looks at.\<close>

definition same_before :: "'w sess \<Rightarrow> 'w sess \<Rightarrow> bool" where
  "same_before s s' \<longleftrightarrow> world s' = world s \<and> current_path s' = current_path s \<and> is_anonymous s' = is_anonymous s \<and>
     verified s' = verified s \<and> submitted s' = submitted s \<and> next_op s' = next_op s"

definition same_result :: "'w sess \<Rightarrow> 'w sess \<Rightarrow> bool" where
  "same_result t t' \<longleftrightarrow> world t' = world t \<and> current_path t' = current_path t \<and> submitted t' = submitted t \<and>
     set (pending t) \<subseteq> set (pending t')"

lemma effect_cong:
  assumes "effect e q s t" and "same_before s s'" "same_result t t'"
  shows "effect e q s' t'"
  using assms unfolding effect_def same_before_def same_result_def
  by (cases q) (auto intro: request_effect_cong request_answered_cong simp del: subset_eq)

lemma same_result_final: "same_result t (drop_session (release e t))"
  using place_account [OF account_release, of e t] by (auto simp: same_result_def drop_session_def)

lemma same_result_read: "same_result t (do_read (if b then t else restart_if_idle e t))"
  by (auto simp: same_result_def do_read_def add_pending_def)

lemma read_effect:
  assumes "op_inv n0 s" and "ec_of e = Success"
  shows "sall (effect e (heard e OnRead s) s) (on_read e s)"
proof -
  obtain built r where p: "parse_line (take (read_n e) (buf s @ chunk e)) (request s) = (built, r)"
    by (cases "parse_line (take (read_n e) (buf s @ chunk e)) (request s)")
  let ?t = "expires_never (s\<lparr>buf := buf s @ chunk e\<rparr>)"
  let ?u = "?t\<lparr>buf := drop (read_n e) (buf s @ chunk e), request := r\<rparr>"
  have frame: "buf ?t = buf s @ chunk e" "request ?t = request s" by (simp_all add: expires_never_def)
  have h: "heard e OnRead s = (if built then Some r else None)" using p assms(2) by (simp add: heard_def)
  have i: "op_inv n0 ?u" using assms(1) by (subst op_inv_cong [of _ s]) (simp_all add: expires_never_def)
  have u: "same_before ?u s" "request ?u = r" by (simp_all add: same_before_def expires_never_def)
  have "sall (\<lambda>(b, x). effect e (Some r) ?u x) (dispatch_task e ?u)"
    using sallD [OF dispatch_effect(1) [OF i, of e]] sallD [OF dispatch_effect(2) [OF i, of e]] u(2)
    by (intro sallI) (auto simp: effect_def)
  then have "sall (\<lambda>(b, x). effect e (Some r) s (do_read (if b then x else restart_if_idle e x))) (dispatch_task e ?u)"
    by (rule sall_mono) (unfold split_beta, erule effect_cong [OF _ u(1) same_result_read])
  moreover have "effect e None s (do_read (restart_if_idle e ?u))"
    using same_result_read [of ?u False e] u(1) by (simp add: effect_def same_result_def same_before_def)
  moreover have "handle_read e (read_n e) ?t = (if \<not> built then Inr (restart_if_idle e ?u)
      else sbind (dispatch_task e ?u) (\<lambda>(b, x). Inr (if \<not> b then restart_if_idle e x else x)))"
    by (simp only: handle_read_def frame p Let_def prod.case)
  ultimately show ?thesis
    using assms(2) h by (auto simp: on_read_def elim!: sall_mono split: if_splits)
qed

lemma completion_effect:
  assumes "op_inv n0 s" and "complete e h s = Inr t"
  shows "effect e (heard e h s) s t"
proof -
  let ?s = "s\<lparr>pending := remove1 h (pending s)\<rparr>"
  have i: "op_inv n0 ?s" using assms(1) by (rule op_inv_taken)
  have b: "same_before ?s s" by (simp add: same_before_def)
  have h: "heard e h ?s = heard e h s" by (simp add: heard_def)
  obtain u where u: "handler_body e h ?s = Inr u" "t = drop_session (release e u)"
    using assms(2) by (auto simp: complete_def sbind_Inr_iff split: if_splits)
  have "effect e (heard e h ?s) ?s u"
  proof (cases "h = OnRead \<and> ec_of e = Success")
    case True
    with sallD [OF read_effect [OF i]] u(1) show ?thesis by (simp add: handler_body_def)
  next
    case False
    then have "account u = account ?s" using sallD [OF wordless_account [OF i, of h e]] u(1) by auto
    with False show ?thesis using place_account [of u ?s] by (auto simp: effect_def heard_def)
  qed
  then show ?thesis unfolding h u(2) by (rule effect_cong [OF _ b same_result_final])
qed

end
