(* ===== verification/Exchange.thy ===== *)
theory Exchange
  imports Request_Effects Session_End
begin

text \<open>
  Whole exchanges: a request that is read, the reply that is written, and the session at
  rest again.
\<close>

subsection \<open>Executions\<close>

text \<open>
  A sequence of completions, each of which is delivered and returns: unlike \<open>run\<close> it has no
  result when one of them cannot happen.
\<close>

fun execute :: "('w env \<times> handler) list \<Rightarrow> 'w sess \<Rightarrow> 'w sess option" where
  "execute [] s = Some s"
| "execute ((e, h) # xs) s =
     (if deliverable h s then (case complete e h s of Inl c \<Rightarrow> None | Inr t \<Rightarrow> execute xs t) else None)"

lemma execute_append: "execute (xs @ ys) s = Option.bind (execute xs s) (execute ys)"
  by (induction xs s rule: execute.induct) (auto split: sum.split)

lemma execute_run: "execute xs s = Some t \<Longrightarrow> run xs s = Inr t"
  by (induction xs s rule: execute.induct) (auto split: if_splits sum.splits)

fun_cases execute_ConsE: "execute (x # xs) s = Some t"

lemma execute_steps: "execute xs s = Some t \<Longrightarrow> \<forall>x \<in> set xs. E (fst x) \<Longrightarrow> (sess_step E)\<^sup>*\<^sup>* s t"
proof (induction xs arbitrary: s)
  case (Cons x xs)
  then obtain e h u where u: "x = (e, h)" "deliverable h s" "complete e h s = Inr u" "execute xs u = Some t"
    by (auto elim!: execute_ConsE split: if_splits sum.splits)
  then have "sess_step E s u" using Cons.prems(2) by (auto intro: sess_step.completion)
  moreover have "(sess_step E)\<^sup>*\<^sup>* u t" using Cons.IH [OF u(4)] Cons.prems(2) by simp
  ultimately show ?case by (rule converse_rtranclp_into_rtranclp)
qed simp

lemma execute_step: "deliverable h s \<Longrightarrow> complete e h s = Inr t \<Longrightarrow> execute ((e, h) # xs) s = execute xs t"
  by simp

subsection \<open>A session at rest\<close>

definition at_rest :: "'w sess \<Rightarrow> bool" where
  "at_rest s \<longleftrightarrow> operators s = [] \<and> message_queue s = [] \<and> mset (pending s) = {#OnRead, OnIdle#} \<and>
     \<not> stoped s \<and> \<not> destroyed s \<and> active_op_num s = 0 \<and> buf s = [] \<and> data_socket s = None"

text \<open>The completion of a read that brings the bytes \<open>l\<close>, and of any other operation.\<close>

definition good :: "'w env \<Rightarrow> 'w env" where
  "good e = e\<lparr>ec_of := Success\<rparr>"

definition brings :: "string \<Rightarrow> 'w env \<Rightarrow> 'w env" where
  "brings l e = e\<lparr>ec_of := Success, chunk := l, read_n := length l\<rparr>"

lemma env_frame [simp]:
  "ec_of (good e) = Success" "cfg (good e) = cfg e" "sys (good e) = sys e" "peer_ok (good e) = peer_ok e"
  "ec_of (brings l e) = Success" "cfg (brings l e) = cfg e" "sys (brings l e) = sys e"
  "chunk (brings l e) = l" "read_n (brings l e) = length l"
  by (simp_all add: good_def brings_def)

text \<open>The state in which the operator for a request is created.\<close>

definition listening :: "ftp_request \<Rightarrow> 'w sess \<Rightarrow> 'w sess" where
  "listening r s = (expires_never (s\<lparr>pending := remove1 OnRead (pending s)\<rparr>))\<lparr>buf := [], request := r\<rparr>"

lemma listening_frame [simp]:
  "request (listening r s) = r" "operators (listening r s) = operators s" "message_queue (listening r s) = message_queue s"
  "submitted (listening r s) = submitted s" "account (listening r s) = account s" "verified (listening r s) = verified s"
  "user (listening r s) = user s" "is_anonymous (listening r s) = is_anonymous s" "current_path (listening r s) = current_path s"
  "world (listening r s) = world s" "next_op (listening r s) = next_op s" "acceptor (listening r s) = acceptor s"
  "data_socket (listening r s) = data_socket s" "active_op_num (listening r s) = active_op_num s"
  "pending (listening r s) = remove1 OnRead (pending s)" "sent (listening r s) = sent s" "stoped (listening r s) = stoped s"
  "destroyed (listening r s) = destroyed s" "buf (listening r s) = []" "transport (listening r s) = transport s" "dropped (listening r s) = dropped s"
  by (simp_all add: listening_def expires_never_def account_def)

lemma read_request:
  assumes "buf s = []" and "\<not> destroyed s" and "parse_line l (request s) = (True, r)"
    and "dispatch_task (brings l e) (listening r s) = Inr (True, t)"
  shows "complete (brings l e) OnRead s = Inr (drop_session (release (brings l e) (do_read t)))"
proof -
  let ?s = "s\<lparr>pending := remove1 OnRead (pending s)\<rparr>"
  have "handle_read (brings l e) (length l) (expires_never (?s\<lparr>buf := buf ?s @ l\<rparr>)) = Inr t"
    using assms(1,3,4) unfolding listening_def expires_never_def by (simp add: handle_read_def Let_def)
  then show ?thesis using assms(2) by (simp add: complete_def handler_body_def on_read_def)
qed

lemma session_kept: "OnRead \<in> set (pending s) \<Longrightarrow> drop_session s = s"
  by (auto simp: drop_session_def intro!: bexI [of _ OnRead])

lemma pending_mset: "mset (pending s) = M \<Longrightarrow> h \<in># M \<Longrightarrow> h \<in> set (pending s)"
  by (metis set_mset_mset)

lemma rest_op_inv: "at_rest s \<Longrightarrow> op_inv 0 s"
proof -
  assume r: "at_rest s"
  then have "set (pending s) = {OnRead, OnIdle}" unfolding at_rest_def by (metis set_mset_mset set_mset_add_mset_insert set_mset_empty)
  with r show "op_inv 0 s" by (simp add: at_rest_def op_inv_def)
qed

text \<open>A reply on its way: the last read is pending again, and the write of the reply.\<close>

definition replying :: "string \<Rightarrow> 'w sess \<Rightarrow> bool" where
  "replying b s \<longleftrightarrow> operators s = [] \<and> message_queue s = [(b, NoToken)] \<and> mset (pending s) = {#OnRead, OnIdle, OnWrite#} \<and>
     \<not> stoped s \<and> \<not> destroyed s \<and> active_op_num s = 0 \<and> buf s = [] \<and> data_socket s = None"

lemma reply_written:
  assumes "replying b s" and "peer_ok e"
  shows "\<exists>t. complete (good e) OnWrite s = Inr t \<and> deliverable OnWrite s \<and> at_rest t \<and> account t = account s \<and>
     acceptor t = acceptor s \<and> next_op t = next_op s \<and> sent t = sent s @ [b] \<and> submitted t = submitted s \<and>
     listings t = listings s"
proof -
  let ?u = "s\<lparr>pending := remove1 OnWrite (pending s), sent := sent s @ [b], message_queue := []\<rparr>"
  let ?t = "update_idle_timer (good e) (max_idle_timeout (cfg e)) ?u"
  have m: "mset (pending ?u) = {#OnRead, OnIdle#}" using assms(1) by (simp add: replying_def)
  then have own: "OnRead \<in> set (pending ?t)" using pending_mset [of ?u, OF _, of _ OnRead] by (simp add: update_idle_timer_def)
  have w: "OnWrite \<in> set (pending s)" using assms(1) by (intro pending_mset [of s]) (auto simp: replying_def)
  have "complete (good e) OnWrite s = Inr (drop_session (release (good e) ?t))"
    using assms calm_release [of ?u "good e"]
    by (simp add: replying_def complete_def handler_body_def on_write_def run_token_def do_write_message_def exists_pending_operator_def)
  moreover have "drop_session (release (good e) ?t) = ?t"
    using assms(1) session_kept [OF own] calm_release [of ?t "good e"] by (simp add: replying_def update_idle_timer_def)
  moreover have "at_rest ?t" using assms(1) m by (simp add: at_rest_def replying_def update_idle_timer_def)
  ultimately show ?thesis using w by (simp add: deliverable_def) (simp add: update_idle_timer_def account_def)
qed

text \<open>A request that is answered on the control connection.\<close>

lemma control_result:
  assumes "op_inv n0 s" "do_operation e i s = Inr v" "lookup_op i s = Some (Plain c)" "c \<noteq> ListOp"
    and "submitted v = submitted s @ [b]"
  shows "\<exists>u. quiet s u \<and> v = enqueue b NoToken u"
proof -
  from do_operation_plain [OF assms(3,4,2)] obtain u where u: "quiet s u" "v = u \<or> (\<exists>b. v = enqueue b NoToken u)"
    by (auto simp: control_effect_def)
  from u(1) have "submitted u = submitted s" by (simp add: quiet_def)
  with u assms(5) show ?thesis by auto
qed

lemma request_read:
  assumes r: "at_rest s" and "parse_line l (request s) = (True, r)"
    and c: "served_by s r = Some c" "c \<noteq> SendFileOp" "c \<noteq> RecvFileOp" "c \<noteq> ListOp"
    and v: "do_operation (brings l e) (next_op s) (created c (listening r s)) = Inr v" "submitted v = submitted s @ [b]"
  shows "\<exists>t. complete (brings l e) OnRead s = Inr t \<and> deliverable OnRead s \<and> replying b t \<and> account t = account v \<and>
     acceptor t = acceptor v \<and> next_op t = Suc (next_op s) \<and> sent t = sent s \<and> submitted t = submitted s @ [b]"
proof -
  let ?e = "brings l e" and ?l = "listening r s"
  have i: "op_inv 0 ?l"
    using rest_op_inv [OF r] by (auto simp: op_inv_def dest: notin_set_remove1)
  note found = created_found [OF i, of c, simplified]
  have ic: "op_inv 0 (created c ?l)"
    using op_inv_new(1) [OF i ctor_effect_refl, of "Plain c"] by (simp add: created_def Let_def)
  obtain u where u: "quiet (created c ?l) u" "v = enqueue b NoToken u"
    using control_result [OF ic v(1) found c(4)] v(2) by auto
  have rest: "operators s = []" "message_queue s = []" "mset (pending s) = {#OnRead, OnIdle#}" "\<not> stoped s" "\<not> destroyed s"
    "data_socket s = None" "buf s = []" using r by (simp_all add: at_rest_def)
  have p: "remove1 OnRead (pending s) = [OnIdle]" using rest(3) by (intro remove1_pair) (simp add: add_mset_commute)
  have q: "pending v = [OnIdle, OnWrite]" "message_queue v = [(b, NoToken)]" "operators v = [(next_op s, Plain c)]"
    "\<not> stoped v" "\<not> destroyed v" "data_socket v = None" "buf v = []" "next_op v = Suc (next_op s)" "sent v = sent s"
    using u rest p by (simp_all add: quiet_def enqueue_def created_def basic_op_ctor_def Let_def)
  let ?w = "do_read (release ?e v)"
  have iv: "op_inv 0 (release ?e v)" using u ic by (intro op_inv_release) (simp add: op_inv_quiet op_inv_enqueue)
  have ops: "operators (release ?e v) = []" using q by (simp add: release_operators referenced_def)
  then have a: "active_op_num (release ?e v) = 0" using iv by (simp add: op_inv_def)
  have d: "dispatch_task ?e ?l = Inr (True, release ?e v)"
    using c served_same [of ?l s r] v(1) construct_plain [OF c(2,3), of ?e ?l]
    by (simp add: dispatch_eq run_op_def)
  have w: "release ?e ?w = ?w" using ops by (intro calm_release) (simp add: do_read_def add_pending_def)
  have "drop_session ?w = ?w" by (rule session_kept) (simp add: do_read_def add_pending_def)
  then have "complete ?e OnRead s = Inr ?w"
    using read_request [OF rest(7,5) assms(2) d] w by simp
  moreover have "replying b ?w"
    using q ops a release_no_data [OF q(6), of ?e] by (simp add: replying_def do_read_def add_pending_def)
  moreover have "deliverable OnRead s" using rest(3) by (auto simp: deliverable_def intro: pending_mset)
  ultimately show ?thesis
    using q v(2) account_release [of ?e v] by (simp add: do_read_def) (simp add: add_pending_def account_def)
qed

text \<open>The exchange: after it the session is at rest again and the reply is written.\<close>

definition ask_with :: "'w env \<Rightarrow> string \<Rightarrow> ('w env \<times> handler) list" where
  "ask_with e l = [(brings l e, OnRead), (good e, OnWrite)]"

lemma exchange:
  assumes "at_rest s" and "parse_line l (request s) = (True, r)" and "peer_ok e"
    and "served_by s r = Some c" "c \<noteq> SendFileOp" "c \<noteq> RecvFileOp" "c \<noteq> ListOp"
    and "do_operation (brings l e) (next_op s) (created c (listening r s)) = Inr v" "submitted v = submitted s @ [b]"
  shows "\<exists>t. execute (ask_with e l) s = Some t \<and> at_rest t \<and> account t = account v \<and> acceptor t = acceptor v \<and>
     next_op t = Suc (next_op s) \<and> sent t = sent s @ [b] \<and> submitted t = submitted s @ [b]"
proof -
  obtain t where t: "complete (brings l e) OnRead s = Inr t" "deliverable OnRead s" "replying b t" "account t = account v"
     "acceptor t = acceptor v" "next_op t = Suc (next_op s)" "sent t = sent s" "submitted t = submitted s @ [b]"
    using request_read [OF assms(1,2,4-9)] by blast
  with reply_written [OF t(3) assms(3)] show ?thesis by (auto simp: ask_with_def)
qed

end
