(* ===== verification/Transfer_Sessions.thy ===== *)
theory Transfer_Sessions
  imports Exchange Transfer_Runs
begin

text \<open>
  A whole transfer, completion by completion: the request, the accepted data connection, the
  150 reply, the readiness events, the 226 reply, and the session at rest.
\<close>

subsection \<open>A session with one transfer\<close>

definition in_transfer :: "opid \<Rightarrow> operator \<Rightarrow> message list \<Rightarrow> handler list \<Rightarrow> data_sock option \<Rightarrow> 'w sess \<Rightarrow> bool" where
  "in_transfer i x q hs d s \<longleftrightarrow> operators s = [(i, x)] \<and> message_queue s = q \<and>
     mset (pending s) = mset ([OnRead, OnIdle] @ hs) \<and> data_socket s = d \<and>
     \<not> stoped s \<and> \<not> destroyed s \<and> active_op_num s = 1 \<and> buf s = [] \<and> i < next_op s \<and>
     (\<forall>h \<in> set hs. handler_fits [i \<mapsto> x] h) \<and> (\<forall>m \<in> set q. token_fits [i \<mapsto> x] (snd m))"

lemma transfer_pending: "in_transfer i x q hs d s \<Longrightarrow> set (pending s) = set ([OnRead, OnIdle] @ hs)"
  unfolding in_transfer_def by (metis set_mset_mset)

lemma transfer_op_inv: "in_transfer i x q hs d s \<Longrightarrow> op_inv 0 s"
  using transfer_pending [of i x q hs d s] by (auto simp: in_transfer_def op_inv_def)

lemma transfer_lookup: "in_transfer i x q hs d s \<Longrightarrow> lookup_op i s = Some x"
  by (simp add: in_transfer_def lookup_op_def)

text \<open>What the steps of a transfer leave alone.\<close>

definition same_account :: "'w sess \<Rightarrow> 'w sess \<Rightarrow> bool" where
  "same_account s t \<longleftrightarrow> account t = account s \<and> next_op t = next_op s \<and> listings t = listings s"

lemma release_referenced:
  assumes "\<forall>i \<in> fst ` set (operators s). referenced i s"
  shows "release e s = s"
  using assms by (simp add: release_def unreferenced_def filter_empty_conv)

text \<open>
  One completion of a transfer: the handler \<open>h\<close> runs and leaves \<open>u\<close>, in which the operator
  is still referenced, so that nothing is released.
\<close>

lemma transfer_step:
  assumes t: "in_transfer i x q (h # hs) d s"
    and b: "handler_body e h (s\<lparr>pending := remove1 h (pending s)\<rparr>) = Inr u"
    and u: "in_transfer i y q' hs' d' u" "(\<exists>h \<in> set hs'. handler_ref h = Some i) \<or> (\<exists>m \<in> set q'. token_ref (snd m) = Some i)"
  shows "complete e h s = Inr u"
proof -
  note p = transfer_pending [OF u(1)]
  then have k: "drop_session u = u" by (intro session_kept) simp
  have "referenced i u" using u(2) p u(1) by (auto simp: referenced_def in_transfer_def)
  then have "release e u = u" using u(1) by (intro release_referenced) (simp add: in_transfer_def)
  with t b k show ?thesis by (simp add: complete_def in_transfer_def)
qed

lemma transfer_deliverable: "in_transfer i x q (h # hs) d s \<Longrightarrow> h \<noteq> OnKeepAlive \<Longrightarrow> deliverable h s"
  by (auto simp: deliverable_def dest: transfer_pending)

text \<open>The last event: its completion releases the operator, and 226 is on its way.\<close>

lemma transfer_ends_in:
  assumes nd: "\<not> destroyed s" and v: "in_transfer i y [] [] d v"
    and b: "handler_body e h (s\<lparr>pending := remove1 h (pending s)\<rparr>) =
       Inr (clear_data_socket (enqueue (get_code_string transfer_complete) NoToken v))"
  shows "\<exists>t. complete e h s = Inr t \<and> replying (get_code_string transfer_complete) t \<and> same_account v t \<and>
     acceptor t = acceptor v \<and> sent t = sent v \<and> submitted t = submitted v @ [get_code_string transfer_complete]"
proof -
  let ?u = "clear_data_socket (enqueue (get_code_string transfer_complete) NoToken v)"
  have p: "mset (pending v) = {#OnRead, OnIdle#}" and q: "message_queue v = []" "operators v = [(i, y)]"
    using v by (simp_all add: in_transfer_def)
  have ps: "set (pending v) = {OnRead, OnIdle}" using transfer_pending [OF v] by auto
  have u: "operators ?u = [(i, y)]" "message_queue ?u = [(get_code_string transfer_complete, NoToken)]"
    "pending ?u = pending v @ [OnWrite]" "data_socket ?u = None" "active_op_num ?u = 1"
    using q v by (simp_all add: clear_data_socket_def enqueue_def in_transfer_def)
  have r: "\<not> referenced i ?u" using u ps by (auto simp: referenced_def)
  have i: "op_inv 0 ?u" using v u ps by (auto simp: op_inv_def in_transfer_def clear_data_socket_def enqueue_def)
  let ?t = "release e ?u"
  have ops: "operators ?t = []" using u r by (simp add: release_operators)
  have a: "active_op_num ?t = 0" using op_inv_release [OF i, of e] ops by (simp add: op_inv_def)
  have "drop_session ?t = ?t" by (rule session_kept) (use u ps in simp)
  then have "complete e h s = Inr ?t" using nd b by (simp add: complete_def)
  moreover have "replying (get_code_string transfer_complete) ?t"
    using ops a u p v release_no_data [OF u(4), of e]
    by (simp add: replying_def in_transfer_def) (simp add: clear_data_socket_def add_mset_commute)
  moreover have "same_account v ?t"
    using account_release [of e ?u] by (simp add: same_account_def) (simp add: clear_data_socket_def account_def)
  ultimately show ?thesis by (auto simp: clear_data_socket_def)
qed

lemma transfer_ends:
  assumes t: "in_transfer i x [] [h] d s"
    and b: "handler_body e h (s\<lparr>pending := remove1 h (pending s)\<rparr>) =
       Inr (clear_data_socket (enqueue (get_code_string transfer_complete) NoToken (update_op i y (s\<lparr>pending := remove1 h (pending s)\<rparr>))))"
  shows "\<exists>t. complete e h s = Inr t \<and> replying (get_code_string transfer_complete) t \<and> same_account s t \<and>
     acceptor t = acceptor s \<and> sent t = sent s \<and> submitted t = submitted s @ [get_code_string transfer_complete]"
proof -
  let ?v = "update_op i y (s\<lparr>pending := remove1 h (pending s)\<rparr>)"
  have v: "in_transfer i y [] [] d ?v" using t by (simp add: in_transfer_def update_op_def)
  have "\<not> destroyed s" using t by (simp add: in_transfer_def)
  from transfer_ends_in [OF this v b] show ?thesis by (simp add: same_account_def account_def update_op_def)
qed

subsection \<open>The start of a transfer\<close>

lemma transfer_requested:
  assumes r: "at_rest s" and "parse_line l (request s) = (True, r)" and c: "served_by s r = Some c"
    and u: "construct (brings l e) c (listening r s) = Inr (i, u)" "operators u = [(i, x)]" "message_queue u = []"
      "pending u = [OnIdle]" "data_socket u = None" "\<not> stoped u" "\<not> destroyed u" "active_op_num u = 1" "buf u = []" "i < next_op u"
    and v: "do_operation (brings l e) i u = Inr (add_pending (OnAccept i) (update_op i y u))" "handler_fits [i \<mapsto> y] (OnAccept i)"
  shows "\<exists>t. complete (brings l e) OnRead s = Inr t \<and> deliverable OnRead s \<and> in_transfer i y [] [OnAccept i] None t \<and>
     account t = account u \<and> next_op t = next_op u \<and> acceptor t = acceptor u \<and> sent t = sent u \<and> submitted t = submitted u \<and>
     listings t = listings u"
proof -
  let ?e = "brings l e" and ?v = "add_pending (OnAccept i) (update_op i y u)"
  have ops: "operators ?v = [(i, y)]" using u(2) by (simp add: add_pending_def update_op_def)
  have "referenced i ?v" by (auto simp: referenced_def add_pending_def)
  then have rv: "release ?e ?v = ?v" using ops by (intro release_referenced) simp
  have d: "dispatch_task ?e (listening r s) = Inr (True, ?v)"
    using c served_same [of "listening r s" s r] u(1) v(1) rv by (simp add: dispatch_eq run_op_def)
  have "referenced i (do_read ?v)" by (auto simp: referenced_def add_pending_def do_read_def)
  then have rr: "release ?e (do_read ?v) = do_read ?v"
    using ops by (intro release_referenced) (simp add: do_read_def add_pending_def)
  have "drop_session (do_read ?v) = do_read ?v" by (rule session_kept) (simp add: do_read_def add_pending_def)
  with rr have "complete ?e OnRead s = Inr (do_read ?v)"
    using read_request [OF _ _ assms(2) d] r by (simp add: at_rest_def)
  moreover have "deliverable OnRead s" using r by (auto simp: deliverable_def at_rest_def intro: pending_mset)
  moreover have "in_transfer i y [] [OnAccept i] None (do_read ?v)"
    using u v(2) by (simp add: in_transfer_def do_read_def add_pending_def update_op_def)
  ultimately show ?thesis by (auto simp: do_read_def add_pending_def account_def update_op_def)
qed

text \<open>The token of the 150 reply and the wait that its function starts.\<close>

fun start_token :: "opid \<Rightarrow> operator \<Rightarrow> token" where
  "start_token i (Sending f) = SendToken i"
| "start_token i (Receiving f) = RecvToken i"
| "start_token i (Plain c) = NoToken"

fun first_wait :: "opid \<Rightarrow> operator \<Rightarrow> handler" where
  "first_wait i (Sending f) = OnSendReady i"
| "first_wait i (Receiving f) = OnRecvReady i"
| "first_wait i (Plain c) = OnIdle"

fun transfer_ready :: "operator \<Rightarrow> bool" where
  "transfer_ready (Sending f) = (0 < sf_fd f \<and> sf_token f)"
| "transfer_ready (Receiving f) = (0 < rf_fd f \<and> rf_token f)"
| "transfer_ready (Plain c) = False"

lemma ready_fits:
  "transfer_ready x \<Longrightarrow> handler_fits [i \<mapsto> x] (OnAccept i)" "transfer_ready x \<Longrightarrow> token_fits [i \<mapsto> x] (start_token i x)"
  "transfer_ready x \<Longrightarrow> handler_fits [i \<mapsto> x] (first_wait i x)"
  by (cases x; simp add: sending_ok_def receiving_ok_def)+

text \<open>The accepted connection: the continuation of the accept queues the 150 reply.\<close>

lemma transfer_accepted_in:
  assumes t: "in_transfer i x [] [OnAccept i] None s"
    and b: "handler_body (good e) (OnAccept i) (s\<lparr>pending := remove1 (OnAccept i) (pending s)\<rparr>) =
      Inr (enqueue (get_code_string data_conn) m (set_data_socket (s\<lparr>pending := remove1 (OnAccept i) (pending s), acceptor := AccClosed\<rparr>)))"
    and m: "token_ref m = Some i" "token_fits [i \<mapsto> x] m"
  shows "\<exists>t. complete (good e) (OnAccept i) s = Inr t \<and> deliverable (OnAccept i) s \<and>
     in_transfer i x [(get_code_string data_conn, m)] [OnWrite] (Some SockOpen) t \<and> same_account s t \<and>
     acceptor t = AccClosed \<and> sent t = sent s \<and> submitted t = submitted s @ [get_code_string data_conn]"
proof -
  let ?t = "enqueue (get_code_string data_conn) m (set_data_socket (s\<lparr>pending := remove1 (OnAccept i) (pending s), acceptor := AccClosed\<rparr>))"
  have "in_transfer i x [(get_code_string data_conn, m)] [OnWrite] (Some SockOpen) ?t"
    using t m(2) by (simp add: in_transfer_def enqueue_def set_data_socket_def)
  moreover from this have "complete (good e) (OnAccept i) s = Inr ?t"
    by (rule transfer_step [OF t b]) (use m(1) in simp)
  ultimately show ?thesis
    using transfer_deliverable [OF t] by (simp add: same_account_def) (simp add: set_data_socket_def account_def)
qed

lemma transfer_accepted:
  assumes t: "in_transfer i x [] [OnAccept i] None s" and x: "transfer_ready x" and "nonblock_ok e" "nodelay_ok e"
  shows "\<exists>t. complete (good e) (OnAccept i) s = Inr t \<and> deliverable (OnAccept i) s \<and>
     in_transfer i x [(get_code_string data_conn, start_token i x)] [OnWrite] (Some SockOpen) t \<and> same_account s t \<and>
     acceptor t = AccClosed \<and> sent t = sent s \<and> submitted t = submitted s @ [get_code_string data_conn]"
proof (rule transfer_accepted_in [OF t])
  have f: "nonblock_ok (good e)" "nodelay_ok (good e)" using assms(3,4) by (simp_all add: good_def)
  have "lookup_op i (set_data_socket (s\<lparr>pending := remove1 (OnAccept i) (pending s), acceptor := AccClosed\<rparr>)) = Some x"
    using transfer_lookup [OF t] by (simp add: lookup_op_def set_data_socket_def)
  then show "handler_body (good e) (OnAccept i) (s\<lparr>pending := remove1 (OnAccept i) (pending s)\<rparr>) =
      Inr (enqueue (get_code_string data_conn) (start_token i x)
        (set_data_socket (s\<lparr>pending := remove1 (OnAccept i) (pending s), acceptor := AccClosed\<rparr>)))"
    using x f by (cases x)
      (simp_all add: handler_body_def on_accept_def Let_def send_connected_def recv_connected_def write_message_eq)
  show "token_ref (start_token i x) = Some i" using x by (cases x) simp_all
qed (rule ready_fits(2) [OF x])

text \<open>The written 150 reply, whose function \<open>m\<close> starts the operation \<open>w\<close> on the data socket.\<close>

lemma transfer_started_in:
  assumes t: "in_transfer i x [(b, m)] [OnWrite] (Some SockOpen) s"
    and m: "\<And>u. data_socket u = Some SockOpen \<Longrightarrow> run_token m u = Inr (add_pending w (u :: 'w sess))"
    and w: "handler_ref w = Some i" "handler_fits [i \<mapsto> x] w"
  shows "\<exists>t. complete (good e) OnWrite s = Inr t \<and> deliverable OnWrite s \<and>
     in_transfer i x [] [w] (Some SockOpen) t \<and> same_account s t \<and>
     acceptor t = acceptor s \<and> sent t = sent s @ [b] \<and> submitted t = submitted (s :: 'w sess)"
proof -
  let ?s = "s\<lparr>pending := remove1 OnWrite (pending s), sent := sent s @ [b]\<rparr>"
  let ?t = "(add_pending w ?s)\<lparr>message_queue := []\<rparr>"
  have q: "message_queue s = [(b, m)]" "data_socket s = Some SockOpen" "active_op_num s = 1" "operators s = [(i, x)]"
    using t by (simp_all add: in_transfer_def)
  have k: "run_token m ?s = Inr (add_pending w ?s)" by (rule m) (simp add: q)
  have "referenced i ?t" using w(1) by (auto simp: referenced_def add_pending_def)
  then have "release (good e) ?t = ?t" using q(4) by (intro release_referenced) (simp add: add_pending_def)
  then have b: "handler_body (good e) OnWrite (s\<lparr>pending := remove1 OnWrite (pending s)\<rparr>) = Inr ?t"
    using q k by (simp add: handler_body_def on_write_def do_write_message_def exists_pending_operator_def add_pending_def)
  have "in_transfer i x [] [w] (Some SockOpen) ?t"
    using t w(2) by (simp add: in_transfer_def add_pending_def)
  moreover from this have "complete (good e) OnWrite s = Inr ?t"
    by (rule transfer_step [OF t b]) (use w(1) in simp)
  ultimately show ?thesis
    using transfer_deliverable [OF t] by (simp add: same_account_def add_pending_def account_def)
qed

lemma transfer_started:
  assumes t: "in_transfer i x [(b, start_token i x)] [OnWrite] (Some SockOpen) s" and x: "transfer_ready x"
  shows "\<exists>t. complete (good e) OnWrite s = Inr t \<and> deliverable OnWrite s \<and>
     in_transfer i x [] [first_wait i x] (Some SockOpen) t \<and> same_account s t \<and>
     acceptor t = acceptor s \<and> sent t = sent s @ [b] \<and> submitted t = submitted s"
  by (rule transfer_started_in [OF t])
     (use x ready_fits(3) [OF x] in \<open>cases x; simp add: run_token_def do_send_file_def do_recv_file_def\<close>)+

subsection \<open>The events of a download\<close>

definition next_wait :: "'w env \<Rightarrow> opid \<Rightarrow> handler" where
  "next_wait e i = (if slice_size (cfg e) = 0 then OnSendReady i else OnLimiter i)"

fun data_events :: "opid \<Rightarrow> handler \<Rightarrow> 'w env list \<Rightarrow> ('w env \<times> handler) list" where
  "data_events i h [] = []"
| "data_events i h (e # es) = (e, h) # data_events i (next_wait e i) es"

lemma send_handler: "h \<in> {OnSendReady i, OnLimiter i} \<Longrightarrow> handler_body e h s = send_deal_event e i (slice_size (cfg e)) s"
  by (auto simp: handler_body_def)

lemma next_wait_in: "next_wait e i \<in> {OnSendReady i, OnLimiter i}"
  by (simp add: next_wait_def)

lemma advanced_frame [simp]:
  "sf_fd (advanced limit n f) = sf_fd f" "sf_token (advanced limit n f) = sf_token f" "sf_size (advanced limit n f) = sf_size f"
  by (simp_all add: advanced_def)

lemma download_event:
  assumes t: "in_transfer i (Sending f) [] [h] (Some SockOpen) s" and h: "h \<in> {OnSendReady i, OnLimiter i}"
    and f: "transfer_ready (Sending f)" "sf_offset f \<le> sf_size f" and e: "ec_of e = Success" "sendfile_res e = SfBytes n"
  shows "if left_to_send f = slice_bytes (slice_size (cfg e)) n f then
      \<exists>t. complete e h s = Inr t \<and> replying (get_code_string transfer_complete) t \<and> same_account s t \<and>
        acceptor t = acceptor s \<and> sent t = sent s \<and> submitted t = submitted s @ [get_code_string transfer_complete]
    else \<exists>t. complete e h s = Inr t \<and>
        in_transfer i (Sending (advanced (slice_size (cfg e)) n f)) [] [next_wait e i] (Some SockOpen) t \<and>
        same_account s t \<and> acceptor t = acceptor s \<and> sent t = sent s \<and> submitted t = submitted s"
proof -
  let ?s = "s\<lparr>pending := remove1 h (pending s)\<rparr>" and ?limit = "slice_size (cfg e)"
  let ?g = "advanced ?limit n f"
  have c: "can_send i f ?s" using t f by (simp add: can_send_def in_transfer_def lookup_op_def)
  note one = slice_sent [OF c e, of ?limit]
  show ?thesis
  proof (cases "left_to_send f = slice_bytes ?limit n f")
    case True
    with one have b: "handler_body e h ?s = Inr (clear_data_socket (enqueue (get_code_string transfer_complete) NoToken (update_op i (Sending ?g) ?s)))"
      by (simp add: send_handler [OF h] Let_def)
    from True transfer_ends [OF t b] show ?thesis by simp
  next
    case False
    let ?t = "add_pending (next_wait e i) (update_op i (Sending ?g) ?s)"
    from False one have b: "handler_body e h ?s = Inr ?t"
      by (simp add: send_handler [OF h] Let_def next_wait_def)
    have g: "handler_fits [i \<mapsto> Sending ?g] (next_wait e i)" using f by (simp add: next_wait_def sending_ok_def)
    have u: "in_transfer i (Sending ?g) [] [next_wait e i] (Some SockOpen) ?t"
      using t g by (simp add: in_transfer_def add_pending_def update_op_def)
    have "complete e h s = Inr ?t"
      by (rule transfer_step [OF t b u]) (simp add: next_wait_def)
    with False u show ?thesis by (simp add: same_account_def add_pending_def account_def update_op_def)
  qed
qed

lemma advanced_progress:
  assumes "sf_offset f \<le> sf_size f" and "n \<noteq> 0" and "left_to_send f \<noteq> slice_bytes limit n f"
  shows "0 < left_to_send (advanced limit n f)" and "left_to_send (advanced limit n f) < left_to_send f"
proof -
  have "0 < unat n" "limit \<noteq> 0 \<Longrightarrow> 0 < unat limit" using assms(2) by (simp_all add: unat_gt_0)
  then have "0 < slice_bytes limit n f" "slice_bytes limit n f < left_to_send f"
    using assms(3) by (auto simp: slice_bytes_def split: if_splits)
  then show "0 < left_to_send (advanced limit n f)" "left_to_send (advanced limit n f) < left_to_send f"
    using advanced_left(2) [OF assms(1), of limit n] by simp_all
qed

text \<open>
  The bytes that the events of a download put on the data connection: each call of
  \<^verbatim>\<open>sendfile\<close> moves the next of the contents \<open>c\<close> of the file, from its offset on.
\<close>

fun bytes_sent :: "string \<Rightarrow> send_file \<Rightarrow> 'w env list \<Rightarrow> string" where
  "bytes_sent c f [] = []"
| "bytes_sent c f (e # es) =
     (case sendfile_res e of
        SfBytes n \<Rightarrow>
          take (unat (min n (sendfile_count f (slice_size (cfg e))))) (drop (unat (sf_offset f)) c) @
          bytes_sent c (advanced (slice_size (cfg e)) n f) es
      | _ \<Rightarrow> bytes_sent c f es)"

lemma bytes_sent_step:
  assumes "sf_offset f \<le> sf_size f" and "sendfile_res e = SfBytes n"
  shows "bytes_sent c f (e # es) = take (slice_bytes (slice_size (cfg e)) n f) (drop (unat (sf_offset f)) c) @
     bytes_sent c (advanced (slice_size (cfg e)) n f) es"
  using assms(2) sendfile_bytes [OF assms(1)] by simp

lemma advanced_offset:
  assumes "sf_offset f \<le> sf_size f"
  shows "unat (sf_offset (advanced limit n f)) = unat (sf_offset f) + slice_bytes limit n f"
  using sendfile_step(1) [OF assms refl, of n limit] sendfile_bytes [OF assms, of n limit] by (simp add: advanced_def)

text \<open>It is the size and the offset that say which bytes are sent.\<close>

lemma bytes_sent_same:
  assumes "sf_size g = sf_size f" "sf_offset g = sf_offset f"
  shows "bytes_sent c g es = bytes_sent c f es"
  using assms
proof (induction es arbitrary: f g)
  case (Cons e es)
  have k: "sendfile_count g limit = sendfile_count f limit" for limit using Cons.prems by (simp add: sendfile_count_def)
  have "bytes_sent c (advanced limit n g) es = bytes_sent c (advanced limit n f) es" for limit n
    by (rule Cons.IH) (use Cons.prems in \<open>simp_all add: advanced_def k\<close>)
  then show ?case using Cons.prems Cons.IH [OF Cons.prems] by (simp add: k split: sendfile_result.split)
qed simp

lemma download_runs:
  assumes "in_transfer i (Sending f) [] [h] (Some SockOpen) s" and "h \<in> {OnSendReady i, OnLimiter i}"
    and "transfer_ready (Sending f)" "sf_offset f \<le> sf_size f"
    and "\<forall>e \<in> set es. takes_bytes e" and "left_to_send f \<le> length es" "es \<noteq> []"
    and "length c = unat (sf_size f)"
  shows "\<exists>k t. k \<le> length es \<and> execute (data_events i h (take k es)) s = Some t \<and>
     replying (get_code_string transfer_complete) t \<and> same_account s t \<and> acceptor t = acceptor s \<and>
     sent t = sent s \<and> submitted t = submitted s @ [get_code_string transfer_complete] \<and>
     bytes_sent c f (take k es) = drop (unat (sf_offset f)) c"
  using assms
proof (induction es arbitrary: s f h)
  case (Cons e es)
  let ?limit = "slice_size (cfg e)"
  obtain n where e: "ec_of e = Success" "sendfile_res e = SfBytes n" "n \<noteq> 0"
    using Cons.prems(5) by (auto simp: takes_bytes_def)
  note sent = bytes_sent_step [OF Cons.prems(4) e(2), of c]
  note one = download_event [OF Cons.prems(1-4) e(1,2)]
  have d: "deliverable h s" using transfer_deliverable [OF Cons.prems(1)] Cons.prems(2) by auto
  show ?case
  proof (cases "left_to_send f = slice_bytes ?limit n f")
    case True
    with Cons.prems(8) have "bytes_sent c f [e] = drop (unat (sf_offset f)) c"
      unfolding sent by (simp add: left_to_send_def)
    with True one d show ?thesis by (intro exI [of _ 1]) auto
  next
    case False
    let ?g = "advanced ?limit n f"
    from False one obtain u where u: "complete e h s = Inr u" "in_transfer i (Sending ?g) [] [next_wait e i] (Some SockOpen) u"
      "same_account s u" "acceptor u = acceptor s" "sent u = sent s" "submitted u = submitted s" by auto
    note p = advanced_progress [OF Cons.prems(4) e(3) False]
    have "left_to_send ?g \<le> length es" "es \<noteq> []" using p Cons.prems(6) by auto
    moreover have "transfer_ready (Sending ?g)" "sf_offset ?g \<le> sf_size ?g"
      using Cons.prems(3) advanced_left(1) [OF Cons.prems(4), of ?limit n] by simp_all
    ultimately obtain k t where k: "k \<le> length es" "execute (data_events i (next_wait e i) (take k es)) u = Some t"
      "replying (get_code_string transfer_complete) t" "same_account u t" "acceptor t = acceptor u"
      "sent t = sent u" "submitted t = submitted u @ [get_code_string transfer_complete]"
      "bytes_sent c ?g (take k es) = drop (unat (sf_offset ?g)) c"
      using Cons.IH [OF u(2) next_wait_in] Cons.prems(5,8) by (auto simp del: data_events.simps execute.simps)
    have b: "bytes_sent c f (take (Suc k) (e # es)) = drop (unat (sf_offset f)) c"
      using k(8) advanced_offset [OF Cons.prems(4), of ?limit n] sent [of "take k es"]
        append_take_drop_id [of "slice_bytes ?limit n f" "drop (unat (sf_offset f)) c"]
      by (simp add: add.commute)
    have "execute (data_events i h (take (Suc k) (e # es))) s = Some t" using u(1) k(2) d by simp
    with u k b show ?thesis by (intro exI [of _ "Suc k"] exI [of _ t]) (simp add: same_account_def del: bytes_sent.simps)
  qed
qed simp

text \<open>
  A file that has become shorter: no call of \<^verbatim>\<open>sendfile\<close> moves anything, however many
  there are, and the transfer waits as before.
\<close>

definition moves_nothing :: "'w env \<Rightarrow> bool" where
  "moves_nothing e \<longleftrightarrow> ec_of e = Success \<and> sendfile_res e = SfBytes 0"

lemma download_spins:
  assumes "in_transfer i (Sending f) [] [h] (Some SockOpen) s" and "h \<in> {OnSendReady i, OnLimiter i}"
    and "transfer_ready (Sending f)" "sf_offset f < sf_size f" and "\<forall>e \<in> set es. moves_nothing e"
  shows "\<exists>t h'. execute (data_events i h es) s = Some t \<and> in_transfer i (Sending f) [] [h'] (Some SockOpen) t \<and>
     h' \<in> {OnSendReady i, OnLimiter i} \<and> same_account s t \<and> sent t = sent s \<and> submitted t = submitted s"
  using assms
proof (induction es arbitrary: s h)
  case Nil
  then show ?case by (auto simp: same_account_def)
next
  case (Cons e es)
  have e: "ec_of e = Success" "sendfile_res e = SfBytes 0" and es: "\<forall>e \<in> set es. moves_nothing e"
    using Cons.prems(5) by (simp_all add: moves_nothing_def)
  have o: "sf_offset f \<le> sf_size f" using Cons.prems(4) by simp
  have "left_to_send f \<noteq> slice_bytes (slice_size (cfg e)) 0 f"
    using Cons.prems(4) by (simp add: left_to_send_def slice_bytes_def word_less_nat_alt)
  moreover have "advanced (slice_size (cfg e)) 0 f = f" by (simp add: advanced_def)
  ultimately obtain u where u: "complete e h s = Inr u" "in_transfer i (Sending f) [] [next_wait e i] (Some SockOpen) u"
    "same_account s u" "sent u = sent s" "submitted u = submitted s"
    using download_event [OF Cons.prems(1-3) o e] by auto
  have d: "deliverable h s" using transfer_deliverable [OF Cons.prems(1)] Cons.prems(2) by auto
  from Cons.IH [OF u(2) next_wait_in Cons.prems(3,4) es] obtain t h' where
    "execute (data_events i (next_wait e i) es) u = Some t" "in_transfer i (Sending f) [] [h'] (Some SockOpen) t"
    "h' \<in> {OnSendReady i, OnLimiter i}" "same_account u t" "sent t = sent u" "submitted t = submitted u" by blast
  with u d show ?case by (intro exI [of _ t] exI [of _ h']) (simp add: same_account_def)
qed

subsection \<open>The events of an upload\<close>

text \<open>An event that brings data and whose loops come to their end, and the one that finds the end of it.\<close>

definition copies :: "'w env \<Rightarrow> bool" where
  "copies e \<longleftrightarrow> ec_of e = Success \<and> (\<exists>n. available e = Inr n \<and> n \<noteq> 0) \<and> draining e \<and> ends (splices e)"

definition closes :: "'w env \<Rightarrow> bool" where
  "closes e \<longleftrightarrow> ec_of e = Success \<and> available e = Inr 0"

definition upload_events :: "opid \<Rightarrow> 'w env list \<Rightarrow> ('w env \<times> handler) list" where
  "upload_events i es = map (\<lambda>e. (e, OnRecvReady i)) es"

definition wrote :: "string \<Rightarrow> recv_file \<Rightarrow> recv_file" where
  "wrote d f = f\<lparr>rf_written := rf_written f @ d\<rparr>"

lemma wrote_frame [simp]:
  "rf_fd (wrote d f) = rf_fd f" "rf_token (wrote d f) = rf_token f" "rf_in_pipe (wrote d f) = rf_in_pipe f"
  "rf_written (wrote d f) = rf_written f @ d"
  by (simp_all add: wrote_def)

lemma upload_event:
  assumes t: "in_transfer i (Receiving f) [] [OnRecvReady i] (Some SockOpen) s"
    and f: "transfer_ready (Receiving f)" "rf_in_pipe f = []" and e: "copies e"
  shows "\<exists>t. complete e (OnRecvReady i) s = Inr t \<and>
    in_transfer i (Receiving (wrote (received (splices e)) f)) [] [OnRecvReady i] (Some SockOpen) t \<and>
    same_account s t \<and> acceptor t = acceptor s \<and> sent t = sent s \<and> submitted t = submitted s"
proof -
  let ?s = "s\<lparr>pending := remove1 (OnRecvReady i) (pending s)\<rparr>" and ?g = "wrote (received (splices e)) f"
  let ?t = "add_pending (OnRecvReady i) (update_op i (Receiving ?g) ?s)"
  obtain n where n: "ec_of e = Success" "available e = Inr n" "n \<noteq> 0" "draining e" "ends (splices e)"
    using e by (auto simp: copies_def)
  have l: "lookup_op i ?s = Some (Receiving f)" "data_socket ?s = Some SockOpen"
    using t by (simp_all add: in_transfer_def lookup_op_def)
  have b: "handler_body e (OnRecvReady i) ?s = Inr ?t"
    using recv_event_copies [OF l(1) f(2) l(2) n] by (simp add: handler_body_def wrote_def)
  have u: "in_transfer i (Receiving ?g) [] [OnRecvReady i] (Some SockOpen) ?t"
    using t f by (simp add: in_transfer_def add_pending_def update_op_def receiving_ok_def)
  have "complete e (OnRecvReady i) s = Inr ?t" by (rule transfer_step [OF t b u]) simp
  with u show ?thesis by (simp add: same_account_def add_pending_def account_def update_op_def)
qed

lemma upload_runs:
  assumes "in_transfer i (Receiving f) [] [OnRecvReady i] (Some SockOpen) s"
    and "transfer_ready (Receiving f)" "rf_in_pipe f = []" and "\<forall>e \<in> set es. copies e"
  shows "\<exists>t. execute (upload_events i es) s = Some t \<and>
    in_transfer i (Receiving (wrote (concat (map (\<lambda>e. received (splices e)) es)) f)) [] [OnRecvReady i] (Some SockOpen) t \<and>
    same_account s t \<and> acceptor t = acceptor s \<and> sent t = sent s \<and> submitted t = submitted s"
  using assms
proof (induction es arbitrary: s f)
  case Nil
  then show ?case by (simp add: upload_events_def wrote_def same_account_def)
next
  case (Cons e es)
  let ?g = "wrote (received (splices e)) f"
  obtain u where u: "complete e (OnRecvReady i) s = Inr u"
    "in_transfer i (Receiving ?g) [] [OnRecvReady i] (Some SockOpen) u"
    "same_account s u" "acceptor u = acceptor s" "sent u = sent s" "submitted u = submitted s"
    using upload_event [OF Cons.prems(1-3)] Cons.prems(4) by auto
  have d: "deliverable (OnRecvReady i) s" using transfer_deliverable [OF Cons.prems(1)] by simp
  have "transfer_ready (Receiving ?g)" "rf_in_pipe ?g = []" "\<forall>e \<in> set es. copies e" using Cons.prems by simp_all
  from Cons.IH [OF u(2) this] show ?case using u d
    by (auto simp: upload_events_def same_account_def wrote_def)
qed

lemma upload_closed:
  assumes t: "in_transfer i (Receiving f) [] [OnRecvReady i] (Some SockOpen) s" and f: "transfer_ready (Receiving f)" and e: "closes e"
  shows "\<exists>t. complete e (OnRecvReady i) s = Inr t \<and> deliverable (OnRecvReady i) s \<and>
     replying (get_code_string transfer_complete) t \<and> same_account s t \<and>
     acceptor t = acceptor s \<and> sent t = sent s \<and> submitted t = submitted s @ [get_code_string transfer_complete]"
proof -
  let ?s = "s\<lparr>pending := remove1 (OnRecvReady i) (pending s)\<rparr>"
  have l: "lookup_op i ?s = Some (Receiving f)" "data_socket ?s = Some SockOpen" "operators ?s = [(i, Receiving f)]"
    using t by (simp_all add: in_transfer_def lookup_op_def)
  have "update_op i (Receiving f) ?s = ?s" using l(3) by (simp add: update_op_def)
  then have "handler_body e (OnRecvReady i) ?s = Inr (clear_data_socket (enqueue (get_code_string transfer_complete) NoToken
      (update_op i (Receiving f) ?s)))"
    using recv_event_ends [OF l(1) _ l(2)] f e by (simp add: handler_body_def closes_def)
  from transfer_ends [OF t this] transfer_deliverable [OF t] show ?thesis by simp
qed

subsection \<open>The requests for a transfer\<close>

text \<open>A file that can be sent, and a target that can be opened for writing.\<close>

definition file_served :: "'w env \<Rightarrow> 'w sess \<Rightarrow> string \<Rightarrow> u64 \<Rightarrow> bool" where
  "file_served e s b n \<longleftrightarrow> b \<noteq> [] \<and> os_exists (sys e) (world s) (get_target_path s b) = Inr True \<and>
     os_file_size (sys e) (world s) (get_target_path s b) = Inr n \<and>
     0 < os_open_read (sys e) (world s) (get_target_path s b)"

definition target_opens :: "'w env \<Rightarrow> 'w sess \<Rightarrow> string \<Rightarrow> 'w \<Rightarrow> bool" where
  "target_opens e s b w \<longleftrightarrow> b \<noteq> [] \<and>
     (is_anonymous s \<longrightarrow> os_exists (sys e) (world s) (get_target_path s b) = Inr False) \<and>
     (\<exists>fd. os_open_write (sys e) (world s) (get_target_path s b) = (fd, w) \<and> 0 < fd) \<and>
     (\<exists>r wr. os_pipe (sys e) w = Some (r, wr) \<and> 0 < r)"

lemma listening_target [simp]: "get_target_path (listening r s) b = get_target_path s b"
  by (simp add: get_target_path_def)

definition opened_for :: "'w env \<Rightarrow> 'w sess \<Rightarrow> string \<Rightarrow> u64 \<Rightarrow> send_file" where
  "opened_for e s b n = \<lparr>sf_fd = os_open_read (sys e) (world s) (get_target_path s b), sf_name = get_target_path s b,
     sf_size = n, sf_offset = 0, sf_token = True\<rparr>"

lemma rest_facts:
  "at_rest s \<Longrightarrow> operators s = []" "at_rest s \<Longrightarrow> message_queue s = []" "at_rest s \<Longrightarrow> active_op_num s = 0"
  "at_rest s \<Longrightarrow> \<not> stoped s" "at_rest s \<Longrightarrow> \<not> destroyed s" "at_rest s \<Longrightarrow> data_socket s = None" "at_rest s \<Longrightarrow> buf s = []"
  "at_rest s \<Longrightarrow> remove1 OnRead (pending s) = [OnIdle]"
  by (simp_all add: at_rest_def remove1_pair add_mset_commute)

lemma retr_requested:
  assumes r: "at_rest s" and "parse_line l (request s) = (True, q)" and "served_by s q = Some SendFileOp"
    and f: "file_served e s (body q) n" and a: "acceptor s \<noteq> AccClosed"
  shows "\<exists>t. complete (brings l e) OnRead s = Inr t \<and> deliverable OnRead s \<and>
     in_transfer (next_op s) (Sending (opened_for e s (body q) n)) [] [OnAccept (next_op s)] None t \<and>
     account t = account s \<and> next_op t = Suc (next_op s) \<and> acceptor t = acceptor s \<and> sent t = sent s \<and> submitted t = submitted s"
proof -
  let ?l = "listening q s" and ?i = "next_op s"
  let ?s0 = "basic_op_ctor (?l\<lparr>next_op := Suc ?i\<rparr>)"
  let ?y = "opened_for e s (body q) n"
  let ?x = "?y\<lparr>sf_token := False\<rparr>"
  let ?u = "(open_fd (sf_fd ?y) ?s0)\<lparr>operators := [(?i, Sending ?x)]\<rparr>"
  have fd: "0 < sf_fd ?y" using f by (simp add: file_served_def opened_for_def)
  have t: "get_target_path ?s0 p = get_target_path s p" "world ?s0 = world s" "request ?s0 = q" for p
    by (simp_all add: basic_op_ctor_def get_target_path_def)
  have "send_file_ctor (brings l e) ?s0 = Inr (?x, open_fd (sf_fd ?y) ?s0)"
    using f by (simp add: send_file_ctor_def t Let_def file_served_def opened_for_def)
  then have c: "construct (brings l e) SendFileOp ?l = Inr (?i, ?u)"
    using rest_facts(1) [OF r] by (simp add: construct_def Let_def open_fd_def basic_op_ctor_def)
  have u: "message_queue ?u = []" "pending ?u = [OnIdle]" "data_socket ?u = None" "\<not> stoped ?u" "\<not> destroyed ?u"
    "active_op_num ?u = 1" "buf ?u = []" "?i < next_op ?u" "acceptor ?u = acceptor s"
    using rest_facts [OF r] fd by (simp_all add: open_fd_def basic_op_ctor_def)
  have "lookup_op ?i ?u = Some (Sending ?x)" by (simp add: lookup_op_def)
  then have "do_operation (brings l e) ?i ?u = Inr (add_pending (OnAccept ?i) (update_op ?i (Sending ?y) ?u))"
    using fd a u(9) by (simp add: do_operation_def send_file_op_def fetch_passive_connection_def check_data_port_def opened_for_def)
  moreover have "handler_fits [?i \<mapsto> Sending ?y] (OnAccept ?i)" by (rule ready_fits) (use fd in \<open>simp add: opened_for_def\<close>)
  ultimately obtain t where t: "complete (brings l e) OnRead s = Inr t" "deliverable OnRead s"
    "in_transfer ?i (Sending ?y) [] [OnAccept ?i] None t" "account t = account ?u" "next_op t = next_op ?u"
    "acceptor t = acceptor ?u" "sent t = sent ?u" "submitted t = submitted ?u"
    using transfer_requested [OF r assms(2,3) c _ u(1-8)] by auto
  moreover have "account ?u = account s" "sent ?u = sent s" "submitted ?u = submitted s" "next_op ?u = Suc ?i"
    by (simp_all add: open_fd_def basic_op_ctor_def account_def)
  ultimately show ?thesis using u(9) by auto
qed

lemma stor_requested:
  assumes r: "at_rest s" and "parse_line l (request s) = (True, q)" and "served_by s q = Some RecvFileOp"
    and f: "target_opens e s (body q) w" and a: "acceptor s \<noteq> AccClosed"
  shows "\<exists>t f. complete (brings l e) OnRead s = Inr t \<and> deliverable OnRead s \<and>
     in_transfer (next_op s) (Receiving f) [] [OnAccept (next_op s)] None t \<and> transfer_ready (Receiving f) \<and>
     rf_in_pipe f = [] \<and> rf_written f = [] \<and> rf_name f = get_target_path s (body q) \<and>
     account t = account (s\<lparr>world := w\<rparr>) \<and> next_op t = Suc (next_op s) \<and> acceptor t = acceptor s \<and>
     sent t = sent s \<and> submitted t = submitted s"
proof -
  let ?l = "listening q s" and ?i = "next_op s" and ?p = "get_target_path s (body q)"
  let ?s0 = "basic_op_ctor (?l\<lparr>next_op := Suc ?i\<rparr>)"
  obtain fd rd wr where o: "os_open_write (sys e) (world s) ?p = (fd, w)" "0 < fd" "os_pipe (sys e) w = Some (rd, wr)"
    "is_anonymous s \<longrightarrow> os_exists (sys e) (world s) ?p = Inr False" "body q \<noteq> []"
    using f by (auto simp: target_opens_def)
  let ?x = "\<lparr>rf_fd = fd, rf_name = ?p, rf_pipe = (rd, wr), rf_token = False, rf_in_pipe = [], rf_written = []\<rparr>"
  let ?y = "?x\<lparr>rf_token := True\<rparr>"
  let ?v = "open_fd wr (open_fd rd (open_fd fd (?s0\<lparr>world := w\<rparr>)))"
  let ?u = "?v\<lparr>operators := [(?i, Receiving ?x)]\<rparr>"
  have t: "get_target_path ?s0 p = get_target_path s p" "world ?s0 = world s" "request ?s0 = q" "is_anonymous ?s0 = is_anonymous s" for p
    by (simp_all add: basic_op_ctor_def get_target_path_def)
  have "recv_file_ctor (brings l e) ?s0 = Inr (?x, ?v)"
    using o by (simp add: recv_file_ctor_def t Let_def)
  then have c: "construct (brings l e) RecvFileOp ?l = Inr (?i, ?u)"
    using rest_facts(1) [OF r] by (simp add: construct_def Let_def open_fd_def basic_op_ctor_def)
  have u: "message_queue ?u = []" "pending ?u = [OnIdle]" "data_socket ?u = None" "\<not> stoped ?u" "\<not> destroyed ?u"
    "active_op_num ?u = 1" "buf ?u = []" "?i < next_op ?u" "acceptor ?u = acceptor s"
    using rest_facts [OF r] by (simp_all add: open_fd_def basic_op_ctor_def)
  have "lookup_op ?i ?u = Some (Receiving ?x)" by (simp add: lookup_op_def)
  then have "do_operation (brings l e) ?i ?u = Inr (add_pending (OnAccept ?i) (update_op ?i (Receiving ?y) ?u))"
    using o(2) a u(9) by (simp add: do_operation_def recv_file_op_def fetch_passive_connection_def check_data_port_def)
  moreover have y: "transfer_ready (Receiving ?y)" using o(2) by simp
  moreover have "handler_fits [?i \<mapsto> Receiving ?y] (OnAccept ?i)" by (rule ready_fits(1) [OF y])
  ultimately obtain t where t: "complete (brings l e) OnRead s = Inr t" "deliverable OnRead s"
    "in_transfer ?i (Receiving ?y) [] [OnAccept ?i] None t" "account t = account ?u" "next_op t = next_op ?u"
    "acceptor t = acceptor ?u" "sent t = sent ?u" "submitted t = submitted ?u"
    using transfer_requested [OF r assms(2,3) c _ u(1-8)] by auto
  moreover have "account ?u = account (s\<lparr>world := w\<rparr>)" "sent ?u = sent s" "submitted ?u = submitted s" "next_op ?u = Suc ?i"
    by (simp_all add: open_fd_def basic_op_ctor_def account_def)
  ultimately show ?thesis using u(9) y by (intro exI [of _ t] exI [of _ ?y]) simp
qed

text \<open>The accepted connection and the written 150 reply.\<close>

definition connect_with :: "'w env \<Rightarrow> opid \<Rightarrow> ('w env \<times> handler) list" where
  "connect_with e i = [(good e, OnAccept i), (good e, OnWrite)]"

lemma transfer_connected:
  assumes "in_transfer i x [] [OnAccept i] None s" and "transfer_ready x" and "nonblock_ok e" "nodelay_ok e"
  shows "\<exists>t. execute (connect_with e i) s = Some t \<and> in_transfer i x [] [first_wait i x] (Some SockOpen) t \<and> same_account s t \<and>
     acceptor t = AccClosed \<and> sent t = sent s @ [get_code_string data_conn] \<and> submitted t = submitted s @ [get_code_string data_conn]"
proof -
  obtain u where u: "complete (good e) (OnAccept i) s = Inr u" "deliverable (OnAccept i) s"
    "in_transfer i x [(get_code_string data_conn, start_token i x)] [OnWrite] (Some SockOpen) u" "same_account s u"
    "acceptor u = AccClosed" "sent u = sent s" "submitted u = submitted s @ [get_code_string data_conn]"
    using transfer_accepted [OF assms] by blast
  with transfer_started [OF u(3) assms(2), of e] show ?thesis by (auto simp: connect_with_def same_account_def)
qed

subsection \<open>Whole transfers\<close>

definition download_session :: "'w env \<Rightarrow> string \<Rightarrow> opid \<Rightarrow> 'w env list \<Rightarrow> ('w env \<times> handler) list" where
  "download_session e l i es =
     (brings l e, OnRead) # connect_with e i @ data_events i (OnSendReady i) es @ [(good e, OnWrite)]"

text \<open>The calls of the data connection that must not fail.\<close>

definition connection_ok :: "'w env \<Rightarrow> bool" where
  "connection_ok e \<longleftrightarrow> nonblock_ok e \<and> nodelay_ok e \<and> peer_ok e"

lemma replied_execute:
  assumes "replying b s" and "peer_ok e"
  shows "\<exists>t. execute [(good e, OnWrite)] s = Some t \<and> at_rest t \<and> same_account s t \<and> acceptor t = acceptor s \<and>
     sent t = sent s @ [b] \<and> submitted t = submitted s"
  using reply_written [OF assms] by (auto simp: same_account_def)

text \<open>A file of \<open>n\<close> bytes of which nothing is sent.\<close>

definition unsent :: "u64 \<Rightarrow> send_file" where
  "unsent n = \<lparr>sf_fd = 0, sf_name = [], sf_size = n, sf_offset = 0, sf_token = False\<rparr>"

lemma bytes_sent_opened: "bytes_sent c (unsent n) es = bytes_sent c (opened_for e s b n) es"
  by (rule bytes_sent_same) (simp_all add: unsent_def opened_for_def)

text \<open>The request, the accepted connection and the written 150 reply.\<close>

lemma download_begins:
  assumes r: "at_rest s" and "parse_line l (request s) = (True, q)" and "served_by s q = Some SendFileOp"
    and f: "file_served e s (body q) n" and "acceptor s \<noteq> AccClosed" and ce: "connection_ok e"
  shows "\<exists>b. execute ((brings l e, OnRead) # connect_with e (next_op s)) s = Some b \<and>
     in_transfer (next_op s) (Sending (opened_for e s (body q) n)) [] [OnSendReady (next_op s)] (Some SockOpen) b \<and>
     account b = account s \<and> next_op b = Suc (next_op s) \<and> acceptor b = AccClosed \<and> sent b = sent s @ [get_code_string data_conn]"
proof -
  let ?i = "next_op s" and ?f = "opened_for e s (body q) n"
  have ready: "transfer_ready (Sending ?f)" using f by (simp add: opened_for_def file_served_def)
  obtain a where a: "complete (brings l e) OnRead s = Inr a" "deliverable OnRead s"
    "in_transfer ?i (Sending ?f) [] [OnAccept ?i] None a" "account a = account s" "next_op a = Suc ?i" "sent a = sent s"
    using retr_requested [OF assms(1-5)] by blast
  obtain b where b: "execute (connect_with e ?i) a = Some b" "in_transfer ?i (Sending ?f) [] [OnSendReady ?i] (Some SockOpen) b"
    "same_account a b" "acceptor b = AccClosed" "sent b = sent a @ [get_code_string data_conn]"
    using transfer_connected [OF a(3) ready] ce by (auto simp: connection_ok_def)
  have "execute ((brings l e, OnRead) # connect_with e ?i) s = Some b" using a(1,2) b(1) by simp
  with a(4-6) b(2-5) show ?thesis by (intro exI [of _ b]) (simp add: same_account_def)
qed

lemma download_complete:
  assumes r: "at_rest s" and "parse_line l (request s) = (True, q)" and "served_by s q = Some SendFileOp"
    and f: "file_served e s (body q) n" and "acceptor s \<noteq> AccClosed" and ce: "connection_ok e"
    and es: "\<forall>e \<in> set es. takes_bytes e" "unat n \<le> length es" "es \<noteq> []" and len: "length c = unat n"
  shows "\<exists>k t. k \<le> length es \<and> execute (download_session e l (next_op s) (take k es)) s = Some t \<and> at_rest t \<and>
     account t = account s \<and> acceptor t = AccClosed \<and> next_op t = Suc (next_op s) \<and>
     sent t = sent s @ [get_code_string data_conn, get_code_string transfer_complete] \<and>
     bytes_sent c (unsent n) (take k es) = c"
proof -
  let ?i = "next_op s" and ?f = "opened_for e s (body q) n"
  obtain b where b: "execute ((brings l e, OnRead) # connect_with e ?i) s = Some b"
    "in_transfer ?i (Sending ?f) [] [OnSendReady ?i] (Some SockOpen) b" "account b = account s" "next_op b = Suc ?i"
    "acceptor b = AccClosed" "sent b = sent s @ [get_code_string data_conn]"
    using download_begins [OF assms(1-6)] by blast
  have ready: "transfer_ready (Sending ?f)" using f by (simp add: opened_for_def file_served_def)
  have "left_to_send ?f \<le> length es" using es(2) by (simp add: left_to_send_def opened_for_def)
  then obtain k d where k: "k \<le> length es" "execute (data_events ?i (OnSendReady ?i) (take k es)) b = Some d"
    "replying (get_code_string transfer_complete) d" "same_account b d" "acceptor d = acceptor b" "sent d = sent b"
    "bytes_sent c ?f (take k es) = c"
    using download_runs [OF b(2) _ ready _ es(1) _ es(3), of c] len by (auto simp: opened_for_def simp del: execute.simps)
  obtain t where t: "execute [(good e, OnWrite)] d = Some t" "at_rest t" "same_account d t" "acceptor t = acceptor d"
    "sent t = sent d @ [get_code_string transfer_complete]"
    using replied_execute [OF k(3)] ce by (auto simp: connection_ok_def simp del: execute.simps)
  have "execute (((brings l e, OnRead) # connect_with e ?i) @ data_events ?i (OnSendReady ?i) (take k es) @ [(good e, OnWrite)]) s = Some t"
    unfolding execute_append using b(1) k(2) t(1) by (simp del: execute.simps)
  then have "execute (download_session e l ?i (take k es)) s = Some t" by (simp add: download_session_def)
  moreover have "bytes_sent c (unsent n) (take k es) = c" using k(7) by (simp only: bytes_sent_opened [symmetric])
  ultimately show ?thesis using k t b by (intro exI [of _ k] exI [of _ t]) (simp add: same_account_def)
qed

text \<open>The transfer of a file that has become shorter goes on for as long as there are events.\<close>

lemma download_stalls:
  assumes r: "at_rest s" and "parse_line l (request s) = (True, q)" and "served_by s q = Some SendFileOp"
    and f: "file_served e s (body q) n" and "acceptor s \<noteq> AccClosed" and ce: "connection_ok e"
    and es: "n \<noteq> 0" "\<forall>e \<in> set es. moves_nothing e"
  shows "\<exists>t h. execute ((brings l e, OnRead) # connect_with e (next_op s) @ data_events (next_op s) (OnSendReady (next_op s)) es) s = Some t \<and>
     in_transfer (next_op s) (Sending (opened_for e s (body q) n)) [] [h] (Some SockOpen) t \<and>
     h \<in> {OnSendReady (next_op s), OnLimiter (next_op s)} \<and> sent t = sent s @ [get_code_string data_conn]"
proof -
  let ?i = "next_op s" and ?f = "opened_for e s (body q) n"
  obtain b where b: "execute ((brings l e, OnRead) # connect_with e ?i) s = Some b"
    "in_transfer ?i (Sending ?f) [] [OnSendReady ?i] (Some SockOpen) b" "sent b = sent s @ [get_code_string data_conn]"
    using download_begins [OF assms(1-6)] by blast
  have o: "transfer_ready (Sending ?f)" "sf_offset ?f < sf_size ?f"
    using f es(1) by (simp_all add: opened_for_def file_served_def word_gt_0)
  obtain t h where t: "execute (data_events ?i (OnSendReady ?i) es) b = Some t" "in_transfer ?i (Sending ?f) [] [h] (Some SockOpen) t"
    "h \<in> {OnSendReady ?i, OnLimiter ?i}" "sent t = sent b"
    using download_spins [OF b(2) _ o es(2)] by (auto simp del: execute.simps)
  have "execute (((brings l e, OnRead) # connect_with e ?i) @ data_events ?i (OnSendReady ?i) es) s = Some t"
    unfolding execute_append using b(1) t(1) by (simp del: execute.simps)
  with t(2-4) b(3) show ?thesis by (auto simp del: execute.simps)
qed

definition upload_session :: "'w env \<Rightarrow> string \<Rightarrow> opid \<Rightarrow> 'w env list \<Rightarrow> ('w env \<times> handler) list" where
  "upload_session e l i es = (brings l e, OnRead) # connect_with e i @ upload_events i es"

lemma upload_complete:
  assumes r: "at_rest s" and "parse_line l (request s) = (True, q)" and "served_by s q = Some RecvFileOp"
    and "target_opens e s (body q) w" and "acceptor s \<noteq> AccClosed" and c: "connection_ok e"
    and es: "\<forall>e \<in> set es. copies e" "closes z"
  shows "\<exists>u f t. execute (upload_session e l (next_op s) es) s = Some u \<and>
     lookup_op (next_op s) u = Some (Receiving f) \<and> rf_name f = get_target_path s (body q) \<and>
     rf_written f = concat (map (\<lambda>e. received (splices e)) es) \<and> world u = w \<and>
     execute [(z, OnRecvReady (next_op s)), (good e, OnWrite)] u = Some t \<and> at_rest t \<and> acceptor t = AccClosed \<and>
     account t = account (s\<lparr>world := w\<rparr>) \<and> sent t = sent s @ [get_code_string data_conn, get_code_string transfer_complete]"
proof -
  let ?i = "next_op s"
  have ok: "nonblock_ok e" "nodelay_ok e" "peer_ok e" using c by (simp_all add: connection_ok_def)
  obtain a f where a: "complete (brings l e) OnRead s = Inr a" "deliverable OnRead s"
    "in_transfer ?i (Receiving f) [] [OnAccept ?i] None a" "transfer_ready (Receiving f)" "rf_in_pipe f = []" "rf_written f = []"
    "rf_name f = get_target_path s (body q)" "account a = account (s\<lparr>world := w\<rparr>)" "sent a = sent s"
    using stor_requested [OF assms(1-5)] by blast
  obtain b where b: "execute (connect_with e ?i) a = Some b" "in_transfer ?i (Receiving f) [] [OnRecvReady ?i] (Some SockOpen) b"
    "same_account a b" "acceptor b = AccClosed" "sent b = sent a @ [get_code_string data_conn]"
    using transfer_connected [OF a(3,4) ok(1,2)] by auto
  let ?g = "wrote (concat (map (\<lambda>e. received (splices e)) es)) f"
  obtain u where u: "execute (upload_events ?i es) b = Some u" "in_transfer ?i (Receiving ?g) [] [OnRecvReady ?i] (Some SockOpen) u"
    "same_account b u" "acceptor u = acceptor b" "sent u = sent b"
    using upload_runs [OF b(2) a(4,5) es(1)] by blast
  have g: "transfer_ready (Receiving ?g)" using a(4) by simp
  obtain d where d: "complete z (OnRecvReady ?i) u = Inr d" "deliverable (OnRecvReady ?i) u"
    "replying (get_code_string transfer_complete) d" "same_account u d" "acceptor d = acceptor u" "sent d = sent u"
    using upload_closed [OF u(2) g es(2)] by blast
  obtain t where t: "execute [(good e, OnWrite)] d = Some t" "at_rest t" "same_account d t" "acceptor t = acceptor d"
    "sent t = sent d @ [get_code_string transfer_complete]"
    using replied_execute [OF d(3) ok(3)] by blast
  have "execute (upload_session e l ?i es) s = Some u"
    using a(1,2) b(1) u(1) by (simp add: upload_session_def execute_append)
  moreover have "execute [(z, OnRecvReady ?i), (good e, OnWrite)] u = Some t" using d(1,2) t(1) by simp
  moreover have "world u = w" using a(8) b(3) u(3) place_account [of u "s\<lparr>world := w\<rparr>"] by (simp add: same_account_def)
  moreover have "rf_name ?g = rf_name f" "rf_written ?g = concat (map (\<lambda>e. received (splices e)) es)"
    using a(6) by (simp_all add: wrote_def)
  ultimately show ?thesis
    using transfer_lookup [OF u(2)] a b u d t by (intro exI [of _ u] exI [of _ ?g] exI [of _ t]) (simp add: same_account_def)
qed

end
