(* ===== verification/Client.thy ===== *)
theory Client
  imports Replies Requests Transfers
begin

text \<open>
  \<^verbatim>\<open>client/benchmark.cc\<close>: the client that logs in, asks for the size of a file, opens a
  passive data connection and receives the file. Resolver, sockets, timers and the outcome
  of each asynchronous operation are given by a script; the chain of \<^verbatim>\<open>async_session\<close> is
  one function over it. Progress bar, logging and the thread pool of its \<^verbatim>\<open>main\<close> are not
  modelled, except that a log line that asks for the local port may throw.
\<close>

subsection \<open>Strings\<close>

definition split_string :: "string \<Rightarrow> char \<Rightarrow> string list" where
  "split_string str dim = read_fields dim str"

text \<open>The loop of \<^verbatim>\<open>join_string\<close>: the separator follows every element but the last.\<close>

fun join_from :: "string \<Rightarrow> string list \<Rightarrow> char \<Rightarrow> string" where
  "join_from out [] dim = out"
| "join_from out (str # rest) dim =
     join_from (if rest \<noteq> [] then out @ str @ [dim] else out @ str) rest dim"

definition join_string :: "string list \<Rightarrow> char \<Rightarrow> string" where
  "join_string xs dim = join_from [] xs dim"

subsection \<open>Requests and responses\<close>

record ftp_response =
  code :: int
  msg :: string

definition build_req :: "ftp_request \<Rightarrow> string" where
  "build_req req = command req @ '' '' @ body req @ crlf"

definition build_resp :: "string \<Rightarrow> crash + ftp_response option" where
  "build_resp m =
     (let ret = split_string m CHR '' ''
      in if length ret < 2 then Inr None
         else sbind (sto 32 (ret ! 0)) (\<lambda>c.
              Inr (Some \<lparr>code = c, msg = join_string (tl ret) CHR '' ''\<rparr>)))"

definition has_code :: "ftp_response option \<Rightarrow> ret_code \<Rightarrow> bool" where
  "has_code resp c = (case resp of None \<Rightarrow> False | Some r \<Rightarrow> code r = int (code_num c))"

subsection \<open>The address of the data connection\<close>

text \<open>
  The regular expression of the passive reply: six runs of digits, separated by commas,
  in parentheses. \<open>match_ints n\<close> matches \<open>Suc n\<close> of them and the closing parenthesis; a
  run is as long as possible, since no digit can follow it.
\<close>

fun match_ints :: "nat \<Rightarrow> string \<Rightarrow> string option" where
  "match_ints n s =
     (let ds = takeWhile isdigit s
      in if ds = [] then None
         else case dropWhile isdigit s of
           [] \<Rightarrow> None
         | c # r \<Rightarrow>
             (case n of
                0 \<Rightarrow> if c = CHR '')'' then Some (ds @ [c]) else None
              | Suc m \<Rightarrow> if c = CHR '','' then map_option (\<lambda>t. ds @ c # t) (match_ints m r) else None))"

declare match_ints.simps [simp del]

fun regex_search :: "string \<Rightarrow> string option" where
  "regex_search [] = None"
| "regex_search (c # cs) =
     (if c = CHR ''('' then
        (case match_ints 5 cs of Some t \<Rightarrow> Some (c # t) | None \<Rightarrow> regex_search cs)
      else regex_search cs)"

text \<open>The port is computed as \<^verbatim>\<open>int\<close> and stored in 16 bits.\<close>

definition pasv_target :: "string \<Rightarrow> crash + (string \<times> u16) option" where
  "pasv_target m =
     (case regex_search m of
        None \<Rightarrow> Inr None
      | Some matched_str \<Rightarrow>
          let split_ret = split_string (take (length matched_str - 2) (drop 1 matched_str)) CHR '',''
          in sbind (sto 32 (split_ret ! (length split_ret - 2))) (\<lambda>hi.
             sbind (sto 32 (last split_ret)) (\<lambda>lo.
             Inr (Some (join_string (take 4 split_ret) CHR ''.'', word_of_int (hi * 256 + lo))))))"

subsection \<open>Receiving the file\<close>

datatype status = waiting_for_readable | do_read_event | finished | unexpected_terminate

record recv_impl =
  status :: status
  offset :: int
  in_pipe :: string
  written_to :: string

record ready =
  rd_ec :: ec
  rd_available :: nat
  rd_ignored :: bool
  rd_splices :: "(splice_in \<times> int list) list"

text \<open>The inner loop. \<open>hook\<close> is the progress callback, which may fail.\<close>

fun drain :: "(int \<Rightarrow> crash + unit) \<Rightarrow> int \<Rightarrow> recv_impl \<Rightarrow> int list \<Rightarrow> crash + recv_impl" where
  "drain hook bytes_in_pipe r rets =
     (if bytes_in_pipe \<le> 0 then Inr r
      else case rets of
        [] \<Rightarrow> Inl Hang
      | pipe_ret # rets' \<Rightarrow>
          let r1 = r\<lparr>offset := offset r + pipe_ret, in_pipe := drop (nat pipe_ret) (in_pipe r),
                    written_to := written_to r @ take (nat pipe_ret) (in_pipe r)\<rparr>
          in sbind (hook (offset r1)) (\<lambda>_. drain hook (bytes_in_pipe - pipe_ret) r1 rets'))"

declare drain.simps [simp del]

fun splice_all :: "(int \<Rightarrow> crash + unit) \<Rightarrow> recv_impl \<Rightarrow> (splice_in \<times> int list) list \<Rightarrow> crash + (status \<times> recv_impl)"
where
  "splice_all hook r [] = Inl Hang"
| "splice_all hook r ((x, outs) # rest) =
     (case x of
        SpEof \<Rightarrow> Inr (waiting_for_readable, r)
      | SpIntr \<Rightarrow> splice_all hook r rest
      | SpAgain \<Rightarrow> Inr (waiting_for_readable, r)
      | SpError \<Rightarrow> Inr (unexpected_terminate, r)
      | SpData d \<Rightarrow>
          if d = [] then Inr (waiting_for_readable, r)
          else sbind (drain hook (int (length d)) (r\<lparr>in_pipe := in_pipe r @ d\<rparr>) outs)
                 (\<lambda>r. splice_all hook r rest))"

definition deal_event :: "(int \<Rightarrow> crash + unit) \<Rightarrow> ready \<Rightarrow> recv_impl \<Rightarrow> crash + (status \<times> recv_impl)" where
  "deal_event hook e r =
     (if rd_available e = 0 \<or> rd_ignored e then Inr (finished, r) else splice_all hook r (rd_splices e))"

lemma splice_all_status: "splice_all hook r xs = Inr (st, t) \<Longrightarrow> st \<noteq> do_read_event"
  by (induction hook r xs rule: splice_all.induct)
     (auto simp: sbind_Inr_iff split: splice_in.splits if_splits)

lemma deal_event_status: "deal_event hook e r = Inr (st, t) \<Longrightarrow> st \<noteq> do_read_event"
  by (auto simp: deal_event_def dest: splice_all_status split: if_splits)

text \<open>
  The loop of \<^verbatim>\<open>operator()\<close>. \<open>None\<close>: it returned to wait for the socket; \<open>Some b\<close>: the
  operation is complete.
\<close>

function impl_loop :: "(int \<Rightarrow> crash + unit) \<Rightarrow> ready \<Rightarrow> recv_impl \<Rightarrow> crash + (bool option \<times> recv_impl)" where
  "impl_loop hook e r =
     (case status r of
        waiting_for_readable \<Rightarrow> Inr (None, r\<lparr>status := do_read_event\<rparr>)
      | do_read_event \<Rightarrow>
          sbind (deal_event hook e r) (\<lambda>x. impl_loop hook e ((snd x)\<lparr>status := fst x\<rparr>))
      | finished \<Rightarrow> Inr (Some True, r)
      | unexpected_terminate \<Rightarrow> Inr (Some False, r))"
  by pat_completeness auto
termination
  by (relation "measure (\<lambda>(hook, e, r). if status r = do_read_event then 1 else 0)")
     (auto dest: deal_event_status)

declare impl_loop.simps [simp del]

definition resume :: "(int \<Rightarrow> crash + unit) \<Rightarrow> ready \<Rightarrow> recv_impl \<Rightarrow> crash + (bool option \<times> recv_impl)" where
  "resume hook e r = (if rd_ec e \<noteq> Success then Inr (Some False, r) else impl_loop hook e r)"

text \<open>\<^verbatim>\<open>do_recv_file\<close> and the readiness events that follow it.\<close>

fun recv_events :: "(int \<Rightarrow> crash + unit) \<Rightarrow> ready list \<Rightarrow> recv_impl \<Rightarrow> crash + (bool option \<times> recv_impl)" where
  "recv_events hook [] r = Inr (None, r)"
| "recv_events hook (e # es) r =
     sbind (resume hook e r) (\<lambda>(res, r).
       case res of Some b \<Rightarrow> Inr (Some b, r) | None \<Rightarrow> recv_events hook es r)"

definition no_event :: ready where
  "no_event = \<lparr>rd_ec = Success, rd_available = 0, rd_ignored = False, rd_splices = []\<rparr>"

definition receive_file :: "(int \<Rightarrow> crash + unit) \<Rightarrow> ready list \<Rightarrow> crash + (bool option \<times> recv_impl)" where
  "receive_file hook es =
     recv_events hook (no_event # es)
       \<lparr>status = waiting_for_readable, offset = 0, in_pipe = [], written_to = []\<rparr>"

subsection \<open>The session of a client\<close>

record arguments =
  arg_file :: string
  arg_dummy :: bool

text \<open>
  The script: what each asynchronous operation ends with. A reply is the outcome of the
  group of a read and a timer: which of the two came first, the error of the read, the
  bytes that came in and the length of the line.
\<close>

record answer =
  timed_out :: bool
  an_ec :: ec
  an_chunk :: string
  an_n :: nat

record script =
  sc_args :: arguments
  sc_resolve :: bool
  sc_connect :: bool
  sc_local_endpoint :: "crash + u16"
  sc_welcome :: answer
  sc_user :: answer
  sc_pass :: answer
  sc_size :: answer
  sc_pasv :: answer
  sc_data_resolve :: bool
  sc_data_connect :: bool
  sc_data_port :: u16
  sc_retr :: answer
  sc_open :: int
  sc_pipe :: "(int \<times> int) option"
  sc_events :: "ready list"
  sc_final :: answer

text \<open>
  The fields of \<^verbatim>\<open>Client\<close>, and what it did: the requests written, the files opened for
  writing (which truncates them), the file received and the descriptors open.
\<close>

record client =
  buf_in :: string
  has_data_socket :: bool
  data_peer :: "(string \<times> u16) option"
  target_fd :: int
  pipe_fd :: "int \<times> int"
  requests_sent :: "string list"
  opened :: "string list"
  received_file :: string
  descriptors :: "int list"

definition new_client :: client where
  "new_client = \<lparr>buf_in = [], has_data_socket = False, data_peer = None, target_fd = 0, pipe_fd = (0, 0),
     requests_sent = [], opened = [], received_file = [], descriptors = []\<rparr>"

text \<open>The completion of \<^verbatim>\<open>get_read_with_timeout_op\<close>; its two error logs ask for the local port.\<close>

definition read_with_timeout :: "script \<Rightarrow> answer \<Rightarrow> client \<Rightarrow> crash + (ftp_response option \<times> client)" where
  "read_with_timeout sc a c =
     (if timed_out a then sbind (sc_local_endpoint sc) (\<lambda>_. Inr (None, c))
      else if an_ec a \<noteq> Success then sbind (sc_local_endpoint sc) (\<lambda>_. Inr (None, c))
      else
        let m = take (an_n a) (buf_in c @ an_chunk a);
            c1 = c\<lparr>buf_in := drop (an_n a) (buf_in c @ an_chunk a)\<rparr>
        in sbind (build_resp m) (\<lambda>resp. Inr (resp, c1)))"

text \<open>\<^verbatim>\<open>async_init\<close>: it reads the greeting even when the connection failed.\<close>

definition async_init :: "script \<Rightarrow> client \<Rightarrow> crash + (bool \<times> client)" where
  "async_init sc c =
     sbind (if sc_resolve sc \<and> sc_connect sc then map_sum id (\<lambda>_. ()) (sc_local_endpoint sc) else Inr ()) (\<lambda>_.
     sbind (read_with_timeout sc (sc_welcome sc) c) (\<lambda>(resp, c).
       Inr (has_code resp welcome_ready, c)))"

definition async_call :: "script \<Rightarrow> ftp_request \<Rightarrow> answer \<Rightarrow> client \<Rightarrow> crash + (ftp_response option \<times> client)" where
  "async_call sc req a c =
     read_with_timeout sc a (c\<lparr>requests_sent := requests_sent c @ [build_req req]\<rparr>)"

text \<open>\<^verbatim>\<open>when(cond).then(call).otherwise(values(nullopt))\<close>\<close>

definition call_when :: "bool \<Rightarrow> script \<Rightarrow> ftp_request \<Rightarrow> answer \<Rightarrow> client \<Rightarrow> crash + (ftp_response option \<times> client)"
where
  "call_when cond sc req a c = (if cond then async_call sc req a c else Inr (None, c))"

text \<open>
  \<^verbatim>\<open>async_establish_data_connection\<close>, under \<^verbatim>\<open>when(cond)\<close>: the call makes the socket in any
  case, but only if the condition holds is the operation started, which resolves the target
  and connects to it. The result says whether that ended without an error.
\<close>

definition async_establish_data_connection :: "bool \<Rightarrow> script \<Rightarrow> string \<times> u16 \<Rightarrow> client \<Rightarrow> crash + (bool \<times> client)"
where
  "async_establish_data_connection cond sc target c =
     (let c1 = c\<lparr>has_data_socket := True\<rparr>
      in if cond then Inr (sc_data_resolve sc \<and> sc_data_connect sc, c1\<lparr>data_peer := Some target\<rparr>)
         else Inr (False, c1))"

text \<open>
  \<^verbatim>\<open>do_recv_op\<close>: a plain function that opens the target and the pipe when it is called,
  and returns the operation. The argument of \<^verbatim>\<open>then\<close> is evaluated whether or not the
  condition holds, so the call is made in any case.
\<close>

definition do_recv_op :: "script \<Rightarrow> client \<Rightarrow> crash + (bool \<times> client)" where
  "do_recv_op sc c =
     (let name = (if arg_dummy (sc_args sc) then ''/dev/null'' else arg_file (sc_args sc));
          fd = sc_open sc;
          c1 = c\<lparr>target_fd := fd, opened := opened c @ [name],
                 descriptors := (if fd < 0 then descriptors c else fd # descriptors c)\<rparr>;
          (cond, c2) =
            (if fd < 0 then (False, c1)
             else case sc_pipe sc of
               None \<Rightarrow> (False, c1)
             | Some (r, w) \<Rightarrow> (True, c1\<lparr>pipe_fd := (r, w), descriptors := r # w # descriptors c1\<rparr>))
      in sbind (sc_local_endpoint sc) (\<lambda>_. Inr (cond, c2)))"

definition progress_hook :: "arguments \<Rightarrow> int \<Rightarrow> int \<Rightarrow> crash + unit" where
  "progress_hook a file_size got =
     (if arg_dummy a then Inr () else if file_size = 0 then Inl DivByZero else Inr ())"

text \<open>
  The last three continuations of \<^verbatim>\<open>async_session\<close>, which follow the reply to the
  request for the file: receiving, the final reply and the result.
\<close>

definition finish_session :: "script \<Rightarrow> bool option \<Rightarrow> client \<Rightarrow> crash + (bool option \<times> client)" where
  "finish_session sc recv_ret c =
     (case recv_ret of
        None \<Rightarrow> Inr (None, c)
      | Some b \<Rightarrow>
          sbind (if b then read_with_timeout sc (sc_final sc) c else Inr (None, c)) (\<lambda>(resp, c).
            Inr (Some (has_code resp transfer_complete), c)))"

definition receive_session :: "script \<Rightarrow> int \<Rightarrow> bool \<Rightarrow> client \<Rightarrow> crash + (bool option \<times> client)" where
  "receive_session sc file_size cond c =
     sbind (do_recv_op sc c) (\<lambda>(ready, c).
     sbind (if cond \<and> ready then receive_file (progress_hook (sc_args sc) file_size) (sc_events sc)
            else Inr (Some False, \<lparr>status = finished, offset = 0, in_pipe = [], written_to = []\<rparr>))
       (\<lambda>(recv_ret, r). finish_session sc recv_ret (c\<lparr>received_file := written_to r\<rparr>)))"

text \<open>
  \<^verbatim>\<open>async_session\<close>: the chain of continuations. The result is the value of the future,
  \<open>None\<close> while the receiving operation still waits.
\<close>

definition async_session :: "script \<Rightarrow> client \<Rightarrow> crash + (bool option \<times> client)" where
  "async_session sc c =
     sbind (async_init sc c) (\<lambda>(init_ret, c).
     sbind (call_when init_ret sc \<lparr>command = ''user'', body = ''anonymous''\<rparr> (sc_user sc) c) (\<lambda>(resp, c).
     sbind (call_when (has_code resp password_required) sc \<lparr>command = ''pass'', body = []\<rparr> (sc_pass sc) c)
       (\<lambda>(resp, c).
     sbind (call_when (has_code resp logged_on) sc
              \<lparr>command = ''size'', body = arg_file (sc_args sc)\<rparr> (sc_size sc) c) (\<lambda>(resp, c).
     sbind (if has_code resp size_or_mdtm_ok then sto 64 (msg (the resp)) else Inr 0) (\<lambda>file_size.
     sbind (call_when (has_code resp size_or_mdtm_ok) sc \<lparr>command = ''pasv'', body = []\<rparr> (sc_pasv sc) c)
       (\<lambda>(resp, c).
     sbind (if has_code resp pasv_ok then pasv_target (msg (the resp)) else Inr None) (\<lambda>target.
     sbind (async_establish_data_connection (target \<noteq> None) sc (case target of None \<Rightarrow> ([], 0) | Some t \<Rightarrow> t) c)
       (\<lambda>(connected, c).
     sbind (call_when (connected \<and> 0 < sc_data_port sc) sc
              \<lparr>command = ''retr'', body = arg_file (sc_args sc)\<rparr> (sc_retr sc) c)
       (\<lambda>(resp, c).
     receive_session sc file_size (has_code resp data_conn) c)))))))))"

text \<open>\<^verbatim>\<open>Client::~Client\<close>\<close>

definition client_dtor :: "client \<Rightarrow> client" where
  "client_dtor c =
     (let c1 = c\<lparr>has_data_socket := False\<rparr>;
          c2 = (if 0 < target_fd c1 then c1\<lparr>descriptors := remove1 (target_fd c1) (descriptors c1)\<rparr> else c1)
      in if 0 < fst (pipe_fd c2) then
           c2\<lparr>descriptors := remove1 (snd (pipe_fd c2)) (remove1 (fst (pipe_fd c2)) (descriptors c2))\<rparr>
         else c2)"

subsection \<open>The process\<close>

text \<open>
  \<^verbatim>\<open>main\<close>: several clients are allowed only with the dummy output. Each client runs its
  session on the thread pool; the main thread waits for the results in turn, for ever where
  a session never ends, and an exception of a session ends the process. The clients share
  nothing that is modelled, so they are run one after the other. At the end all are
  destroyed.
\<close>

definition client_run :: "script \<Rightarrow> crash + (bool \<times> client)" where
  "client_run sc =
     sbind (async_session sc new_client) (\<lambda>(ret, c).
       case ret of None \<Rightarrow> Inl Hang | Some b \<Rightarrow> Inr (b, c))"

fun run_clients :: "script list \<Rightarrow> crash + (bool \<times> client) list" where
  "run_clients [] = Inr []"
| "run_clients (sc # scs) =
     sbind (client_run sc) (\<lambda>x. sbind (run_clients scs) (\<lambda>xs. Inr (x # xs)))"

definition main_client :: "arguments \<Rightarrow> int \<Rightarrow> (nat \<Rightarrow> script) \<Rightarrow> crash + (int \<times> (bool \<times> client) list)" where
  "main_client a num scs =
     (if \<not> arg_dummy a \<and> 1 < num then Inr (- 1, [])
      else
        sbind (run_clients (map (\<lambda>i. (scs i)\<lparr>sc_args := a\<rparr>) [0..<nat num])) (\<lambda>xs.
          Inr (0, map (map_prod id client_dtor) xs)))"

end
