(* ===== verification/Client_Facts.thy ===== *)
theory Client_Facts
  imports Client Transfer_Facts
begin

text \<open>
  The client against the server: what one writes the other reads back. Requests, replies,
  the passive address and the received file, and a whole session.
\<close>

subsection \<open>Replies\<close>

lemma join_from_eq: "join_from out xs d = out @ join_with [d] xs"
proof (induction xs arbitrary: out)
  case (Cons x xs)
  then show ?case by (cases xs) auto
qed simp

lemma join_string_eq: "join_string xs d = join_with [d] xs"
  by (simp add: join_string_def join_from_eq)

lemma blank_not_digit: "\<forall>c \<in> set ds. isdigit c \<Longrightarrow> CHR '' '' \<notin> set ds"
  using isdigit_not_space isspace_blank(1) by blast

lemma build_resp_line:
  assumes "int n < 2 ^ 31"
  shows "build_resp (show_nat n @ '' '' @ info @ crlf) = Inr (Some \<lparr>code = int n, msg = info @ crlf\<rparr>)"
proof -
  let ?t = "info @ crlf"
  have t: "?t \<noteq> []" "last ?t \<noteq> CHR '' ''" by (simp_all add: crlf_def)
  have "CHR '' '' \<notin> set (show_nat n)" using show_nat_digits by (intro blank_not_digit) blast
  then have f: "read_fields CHR '' '' (show_nat n @ '' '' @ ?t) = show_nat n # read_fields CHR '' '' ?t"
    by (simp add: read_fields_field)
  have "read_fields CHR '' '' ?t \<noteq> []" using t(1) by simp
  moreover have "join_with '' '' (read_fields CHR '' '' ?t) = ?t" using t by (rule join_read_fields)
  moreover have "sto 32 (show_nat n) = Inr (int n)" using sto_show_nat [of n 32 "[]"] assms by simp
  ultimately show ?thesis
    unfolding build_resp_def split_string_def Let_def f join_string_eq
    by (cases "read_fields CHR '' '' ?t") simp_all
qed

lemma code_num_small: "int (code_num c) < 2 ^ 31"
  using code_num_bounds [of c] by simp

lemma build_resp_info: "build_resp (get_code_string_info c info) = Inr (Some \<lparr>code = int (code_num c), msg = info @ crlf\<rparr>)"
  unfolding get_code_string_info_def by (rule build_resp_line [OF code_num_small])

lemma build_resp_code: "code_map c = Some t \<Longrightarrow>
   build_resp (get_code_string c) = Inr (Some \<lparr>code = int (code_num c), msg = t @ crlf\<rparr>)"
  by (simp add: get_code_string_Some build_resp_info)

text \<open>A code that is missing from the table makes a line the client cannot read.\<close>

lemma build_resp_bare: "code_map c = None \<Longrightarrow> build_resp (get_code_string c) = Inr None"
proof -
  assume "code_map c = None"
  moreover have "CHR '' '' \<notin> set (show_nat (code_num c) @ crlf)"
    using blank_not_digit [of "show_nat (code_num c)"] show_nat_digits by (auto simp: crlf_def)
  ultimately show ?thesis
    by (simp add: get_code_string_def build_resp_def split_string_def read_fields_last Let_def)
qed

lemma has_code_iff [simp]: "has_code (Some \<lparr>code = int (code_num c), msg = m\<rparr>) d \<longleftrightarrow> c = d"
  using code_num_inj [of c d] by (auto simp: has_code_def)

subsection \<open>Requests\<close>

lemma parse_build_req:
  assumes "is_word cmd" and "\<forall>w \<in> set ws. is_word w"
  shows "parse_line (build_req \<lparr>command = cmd, body = join_with '' '' ws\<rparr>) r =
           (True, \<lparr>command = map toupper cmd, body = join_with '' '' ws\<rparr>)"
proof -
  have c: "\<forall>x \<in> set crlf. isspace x" by (simp add: crlf_def)
  have "read_words (build_req \<lparr>command = cmd, body = join_with '' '' ws\<rparr>) = cmd # ws"
  proof (cases ws)
    case Nil
    have "read_words (join_with '' '' [cmd] @ '' '' @ crlf) = [cmd]"
      using assms(1) c by (intro read_words_join) simp_all
    with Nil show ?thesis by (simp add: build_req_def)
  next
    case (Cons v vs)
    then show ?thesis
      using read_words_join [of "cmd # ws" crlf] assms c by (simp add: build_req_def)
  qed
  then show ?thesis
    by (cases r) (simp add: parse_line_def build_request_eq reset_request_def)
qed

subsection \<open>The passive address\<close>

definition numeral_string :: "string \<Rightarrow> bool" where
  "numeral_string ds = (ds \<noteq> [] \<and> (\<forall>c \<in> set ds. isdigit c))"

lemma numeral_show [simp]: "numeral_string (show_nat n)"
  using show_nat_digits by (auto simp: numeral_string_def)

lemma digits_upto:
  "numeral_string ds \<Longrightarrow> \<not> isdigit c \<Longrightarrow> takeWhile isdigit (ds @ c # r) = ds"
  "numeral_string ds \<Longrightarrow> \<not> isdigit c \<Longrightarrow> dropWhile isdigit (ds @ c # r) = c # r"
proof -
  assume d: "numeral_string ds" "\<not> isdigit c"
  then show "takeWhile isdigit (ds @ c # r) = ds" by (intro takeWhile_digits_append) (auto simp: numeral_string_def)
  from d show "dropWhile isdigit (ds @ c # r) = c # r"
    by (simp add: numeral_string_def dropWhile_append)
qed

lemma not_digit [simp]: "\<not> isdigit CHR '')''" "\<not> isdigit CHR '',''" "\<not> isdigit CHR ''.''"
  by (simp_all add: isdigit_def)

lemma match_ints_ok:
  assumes "\<forall>d \<in> set ds. numeral_string d" and "length ds = Suc n"
  shows "match_ints n (join_with '','' ds @ '')'' @ r) = Some (join_with '','' ds @ '')'')"
  using assms
proof (induction n arbitrary: ds)
  case 0
  then obtain d where "ds = [d]" "numeral_string d" by (cases ds) auto
  then show ?case
    by (subst match_ints.simps) (simp add: digits_upto Let_def, simp add: numeral_string_def)
next
  case (Suc n)
  then obtain d es where ds: "ds = d # es" "numeral_string d" "length es = Suc n" "\<forall>d \<in> set es. numeral_string d"
    by (cases ds) auto
  then have j: "join_with '','' ds @ '')'' @ r = d @ CHR '','' # (join_with '','' es @ '')'' @ r)"
    "join_with '','' ds = d @ CHR '','' # join_with '','' es" by (cases es; simp)+
  have "d \<noteq> []" using ds(2) by (simp add: numeral_string_def)
  with Suc.IH [OF ds(4,3)] show ?case
    unfolding j by (subst match_ints.simps) (simp add: digits_upto [OF ds(2)] Let_def)
qed

lemma regex_search_skip: "CHR ''('' \<notin> set xs \<Longrightarrow> regex_search (xs @ ys) = regex_search ys"
  by (induction xs) auto

lemma numeral_free: "numeral_string d \<Longrightarrow> \<not> isdigit c \<Longrightarrow> c \<notin> set d"
  by (auto simp: numeral_string_def)

lemma dots_to_commas:
  "\<forall>d \<in> set ds. numeral_string d \<Longrightarrow>
   map (\<lambda>c. if c = CHR ''.'' then CHR '','' else c) (join_with ''.'' ds) = join_with '','' ds"
proof (induction ds)
  case (Cons d ds)
  have "map (\<lambda>c. if c = CHR ''.'' then CHR '','' else c) d = d"
    using Cons.prems numeral_free [of d "CHR ''.''"] by (intro map_idI) auto
  with Cons show ?case by (cases ds) auto
qed simp

lemma read_numerals:
  assumes "ds \<noteq> []" and "\<forall>d \<in> set ds. numeral_string d"
  shows "read_fields CHR '','' (join_with '','' ds) = ds"
  using assms numeral_free [of _ "CHR '',''"] by (intro read_fields_join) (auto simp: numeral_string_def)

lemma pasv_reply:
  assumes "length ips = 4" and "\<forall>d \<in> set ips. numeral_string d"
  shows "build_resp (get_pasv_response (join_with ''.'' ips) p) =
           Inr (Some \<lparr>code = int (code_num pasv_ok),
             msg = ''Entering Passive Mode. ('' @ join_with '','' (ips @ [show_nat (unat (p div 256)), show_nat (unat (p mod 256))])
                   @ '')'' @ crlf\<rparr>)"
proof -
  have j: "join_with '','' ips @ '','' @ x @ '','' @ y = join_with '','' (ips @ [x, y])" for x y
  proof -
    obtain a b c d where "ips = [a, b, c, d]"
      using assms(1) by (auto simp: numeral_eq_Suc length_Suc_conv)
    then show ?thesis by simp
  qed
  have "get_pasv_response (join_with ''.'' ips) p =
      show_nat (code_num pasv_ok) @ '' '' @ (''Entering Passive Mode. ('' @
        join_with '','' (ips @ [show_nat (unat (p div 256)), show_nat (unat (p mod 256))]) @ '')'') @ crlf"
    unfolding j [symmetric] by (simp add: get_pasv_response_def dots_to_commas [OF assms(2)])
  then show ?thesis
    using build_resp_line [OF code_num_small, of pasv_ok "''Entering Passive Mode. ('' @
        join_with '','' (ips @ [show_nat (unat (p div 256)), show_nat (unat (p mod 256))]) @ '')''"]
    by simp
qed

lemma pasv_target_reply:
  assumes "length ips = 4" and "\<forall>d \<in> set ips. numeral_string d"
  shows "pasv_target (''Entering Passive Mode. ('' @ join_with '','' (ips @ [show_nat (unat (p div 256)), show_nat (unat (p mod 256))])
           @ '')'' @ crlf) = Inr (Some (join_with ''.'' ips, p))"
proof -
  let ?hi = "show_nat (unat (p div 256))" and ?lo = "show_nat (unat (p mod 256))"
  let ?ds = "ips @ [?hi, ?lo]"
  have ds: "\<forall>d \<in> set ?ds. numeral_string d" "length ?ds = Suc 5" using assms by auto
  let ?body = "join_with '','' ?ds"
  have "regex_search (''Entering Passive Mode. ('' @ ?body @ '')'' @ crlf) = Some (CHR ''('' # ?body @ '')'')"
  proof -
    have "regex_search (''Entering Passive Mode. '' @ (CHR ''('' # ?body @ '')'' @ crlf)) = Some (CHR ''('' # ?body @ '')'')"
      by (subst regex_search_skip) (simp_all only: regex_search.simps match_ints_ok [OF ds] option.case simp_thms if_True, simp)
    then show ?thesis by simp
  qed
  moreover have "take (length (CHR ''('' # ?body @ '')'') - 2) (drop 1 (CHR ''('' # ?body @ '')'')) = ?body" by simp
  moreover have "read_fields CHR '','' ?body = ?ds" using ds by (intro read_numerals) auto
  moreover have "sto 32 ?hi = Inr (int (unat (p div 256)))" "sto 32 ?lo = Inr (int (unat (p mod 256)))"
  proof -
    have "int (unat x) < 2 ^ 31" for x :: u16
    proof -
      have "unat x < 2 ^ LENGTH(16)" by (rule unsigned_less)
      then have "unat x < 65536" by simp
      then have "int (unat x) < int 65536" by (simp only: of_nat_less_iff)
      then show ?thesis by (rule less_le_trans) simp
    qed
    then show "sto 32 ?hi = Inr (int (unat (p div 256)))" "sto 32 ?lo = Inr (int (unat (p mod 256)))"
      using sto_show_nat [of "unat (p div 256)" 32 "[]"] sto_show_nat [of "unat (p mod 256)" 32 "[]"] by simp_all
  qed
  moreover have "word_of_int (int (unat (p div 256)) * 256 + int (unat (p mod 256))) = p"
  proof -
    have "of_nat (unat (p div 256) * 256 + unat (p mod 256)) = p"
      by (simp add: div_mult_mod_eq)
    then show ?thesis by simp
  qed
  ultimately show ?thesis
    using assms(1) unfolding pasv_target_def split_string_def join_string_eq
    by (simp add: Let_def nth_append)
qed

subsection \<open>The received file\<close>

text \<open>The client's copy of the pipe loop does what the server's does, and counts the bytes.\<close>

definition free :: "int \<Rightarrow> crash + unit" where
  "free k = Inr ()"

lemma drain_all:
  "drains n rets \<Longrightarrow> n \<le> length (in_pipe r) \<Longrightarrow>
   drain free (int n) r rets =
     Inr (r\<lparr>offset := offset r + int n, in_pipe := drop n (in_pipe r),
            written_to := written_to r @ take n (in_pipe r)\<rparr>)"
proof (induction rets arbitrary: n r)
  case Nil
  then have "n = 0" by (subst (asm) drains.simps) (simp split: if_splits)
  then show ?case by (subst drain.simps) simp
next
  case (Cons k ks)
  show ?case
  proof (cases "n = 0")
    case True
    then show ?thesis by (subst drain.simps) simp
  next
    case False
    with Cons.prems(1) have k: "1 \<le> k" "k \<le> int n" "drains (n - nat k) ks"
      by (cases n; simp add: drains_Cons)+
    let ?r = "r\<lparr>offset := offset r + k, in_pipe := drop (nat k) (in_pipe r),
                written_to := written_to r @ take (nat k) (in_pipe r)\<rparr>"
    have n: "int (n - nat k) = int n - k" "nat k \<le> n" using k by auto
    have "drain free (int n) r (k # ks) = drain free (int n - k) ?r ks"
      using False by (subst drain.simps) (simp add: free_def)
    also have "\<dots> = Inr (?r\<lparr>offset := offset ?r + int (n - nat k), in_pipe := drop (n - nat k) (in_pipe ?r),
        written_to := written_to ?r @ take (n - nat k) (in_pipe ?r)\<rparr>)"
      using Cons.IH [OF k(3), of ?r] Cons.prems(2) n by simp
    also have "take (nat k) (in_pipe r) @ take (n - nat k) (drop (nat k) (in_pipe r)) = take n (in_pipe r)"
      using n(2) by (metis le_add_diff_inverse take_add)
    then have "Inr (?r\<lparr>offset := offset ?r + int (n - nat k), in_pipe := drop (n - nat k) (in_pipe ?r),
        written_to := written_to ?r @ take (n - nat k) (in_pipe ?r)\<rparr>) =
      Inr (r\<lparr>offset := offset r + int n, in_pipe := drop n (in_pipe r),
            written_to := written_to r @ take n (in_pipe r)\<rparr>)"
      using n by simp
    finally show ?thesis .
  qed
qed

lemma splice_all_copies:
  "all_drain rs \<Longrightarrow> ends rs \<Longrightarrow> in_pipe r = [] \<Longrightarrow>
   splice_all free r rs = Inr (waiting_for_readable,
     r\<lparr>offset := offset r + int (length (received rs)), written_to := written_to r @ received rs\<rparr>)"
proof (induction rs arbitrary: r rule: ends.induct)
  case (2 d outs rs)
  show ?case
  proof (cases "d = []")
    case False
    have a: "drains (length d) outs" "all_drain rs" using 2 by (simp_all add: all_drain_def)
    let ?r = "r\<lparr>offset := offset r + int (length d), written_to := written_to r @ d\<rparr>"
    have "drain free (int (length d)) (r\<lparr>in_pipe := d\<rparr>) outs =
        Inr ((r\<lparr>in_pipe := d\<rparr>)\<lparr>offset := offset r + int (length d), in_pipe := [], written_to := written_to r @ d\<rparr>)"
      using drain_all [OF a(1), of "r\<lparr>in_pipe := d\<rparr>"] by simp
    also have "(r\<lparr>in_pipe := d\<rparr>)\<lparr>offset := offset r + int (length d), in_pipe := [], written_to := written_to r @ d\<rparr> = ?r"
      using 2(4) by simp
    finally have "drain free (int (length d)) (r\<lparr>in_pipe := d\<rparr>) outs = Inr ?r" .
    with 2(1) [OF a(2), of ?r] 2(3,4) False show ?thesis by (simp add: add.assoc)
  qed (use 2 in simp)
qed (auto simp: all_drain_def)

text \<open>Without the offset and the hook, the client's two loops are the server's, on every outcome.\<close>

lemma drain_server:
  "map_sum id (\<lambda>t. (in_pipe t, written_to t)) (drain free n r rets) =
     (case drain_pipe n (in_pipe r) (written_to r) rets of None \<Rightarrow> Inl Hang | Some pw \<Rightarrow> Inr pw)"
proof (induction rets arbitrary: n r)
  case Nil
  show ?case by (subst drain.simps, subst drain_pipe.simps) simp
next
  case (Cons k ks)
  show ?case
  proof (cases "n \<le> 0")
    case True
    then show ?thesis by (subst drain.simps, subst drain_pipe.simps) simp
  next
    case False
    let ?r = "r\<lparr>offset := offset r + k, in_pipe := drop (nat k) (in_pipe r),
                written_to := written_to r @ take (nat k) (in_pipe r)\<rparr>"
    have "drain free n r (k # ks) = drain free (n - k) ?r ks"
      using False by (subst drain.simps) (simp add: free_def)
    moreover have "drain_pipe n (in_pipe r) (written_to r) (k # ks) = drain_pipe (n - k) (in_pipe ?r) (written_to ?r) ks"
      using False by (subst drain_pipe.simps) simp
    ultimately show ?thesis using Cons.IH [of "n - k" ?r] by simp
  qed
qed

lemma splice_server:
  "map_sum id (\<lambda>(st, t). (st, in_pipe t, written_to t)) (splice_all free r rs) =
     (case splice_loop rs (in_pipe r) (written_to r) of
        LoopDone p w \<Rightarrow> Inr (waiting_for_readable, p, w)
      | LoopError p w \<Rightarrow> Inr (unexpected_terminate, p, w)
      | LoopRunning \<Rightarrow> Inl Hang)"
proof (induction rs arbitrary: r)
  case (Cons x rs)
  obtain y outs where x: "x = (y, outs)" by (cases x)
  show ?case
  proof (cases "\<exists>d. y = SpData d \<and> d \<noteq> []")
    case False
    with x Cons show ?thesis by (auto split: splice_in.split)
  next
    case True
    then obtain d where d: "y = SpData d" "d \<noteq> []" by blast
    let ?r = "r\<lparr>in_pipe := in_pipe r @ d\<rparr>"
    note dr = drain_server [of "int (length d)" ?r outs]
    show ?thesis
    proof (cases "drain free (int (length d)) ?r outs")
      case (Inl c)
      with dr have "drain_pipe (int (length d)) (in_pipe r @ d) (written_to r) outs = None \<and> c = Hang"
        by (simp split: option.splits)
      with x d Inl show ?thesis by simp
    next
      case (Inr t)
      with dr have "drain_pipe (int (length d)) (in_pipe r @ d) (written_to r) outs = Some (in_pipe t, written_to t)"
        by (simp split: option.splits)
      with x d Inr Cons.IH [of t] show ?thesis by simp
    qed
  qed
qed simp

definition good_event :: "ready \<Rightarrow> bool" where
  "good_event e \<longleftrightarrow> rd_ec e = Success \<and> rd_available e \<noteq> 0 \<and> \<not> rd_ignored e \<and>
     all_drain (rd_splices e) \<and> ends (rd_splices e)"

lemma recv_events_copies:
  assumes "\<forall>e \<in> set es. good_event e" and "rd_ec z = Success" "rd_available z = 0"
    and "status r = do_read_event" "in_pipe r = []"
  shows "\<exists>t. recv_events free (es @ [z]) r = Inr (Some True, t) \<and>
           written_to t = written_to r @ concat (map (\<lambda>e. received (rd_splices e)) es)"
  using assms(1,4,5)
proof (induction es arbitrary: r)
  case Nil
  have "resume free z r = Inr (Some True, r\<lparr>status := finished\<rparr>)"
    using assms(2,3) Nil by (simp add: resume_def impl_loop.simps [of free z] deal_event_def)
  then show ?case by simp
next
  case (Cons e es)
  let ?r = "r\<lparr>offset := offset r + int (length (received (rd_splices e))),
              written_to := written_to r @ received (rd_splices e)\<rparr>"
  let ?u = "?r\<lparr>status := do_read_event\<rparr>"
  have g: "good_event e" using Cons by simp
  have "deal_event free e r = Inr (waiting_for_readable, ?r)"
    using g splice_all_copies [of "rd_splices e" r] Cons.prems(3)
    by (simp add: deal_event_def good_event_def)
  then have "resume free e r = Inr (None, ?u)"
    using g Cons.prems(2) by (simp add: resume_def impl_loop.simps [of free e] good_event_def)
  moreover obtain t where "recv_events free (es @ [z]) ?u = Inr (Some True, t)"
    "written_to t = written_to ?u @ concat (map (\<lambda>e. received (rd_splices e)) es)"
    using Cons.IH [of ?u] Cons.prems by auto
  ultimately show ?case by simp
qed

lemma recv_file_copies:
  assumes "\<forall>e \<in> set es. good_event e" and "rd_ec z = Success" "rd_available z = 0"
  shows "\<exists>t. receive_file free (es @ [z]) = Inr (Some True, t) \<and>
           written_to t = concat (map (\<lambda>e. received (rd_splices e)) es)"
proof -
  let ?r = "\<lparr>status = waiting_for_readable, offset = 0, in_pipe = [], written_to = []\<rparr>"
  have "resume free no_event ?r = Inr (None, ?r\<lparr>status := do_read_event\<rparr>)"
    by (simp add: resume_def no_event_def impl_loop.simps)
  then show ?thesis
    using recv_events_copies [OF assms, of "?r\<lparr>status := do_read_event\<rparr>"] by (simp add: receive_file_def)
qed

subsection \<open>What a session leaves behind\<close>

definition files_same :: "client \<Rightarrow> client \<Rightarrow> bool" where
  "files_same c d \<longleftrightarrow> opened d = opened c \<and> descriptors d = descriptors c \<and> target_fd d = target_fd c \<and>
     pipe_fd d = pipe_fd c"

lemma files_same_simps [simp]:
  "files_same c c" "files_same c (d\<lparr>buf_in := b\<rparr>) = files_same c d"
  "files_same c (d\<lparr>requests_sent := r\<rparr>) = files_same c d"
  "files_same c (d\<lparr>has_data_socket := x\<rparr>) = files_same c d" "files_same c (d\<lparr>data_peer := y\<rparr>) = files_same c d"
  "files_same c (d\<lparr>received_file := f\<rparr>) = files_same c d"
  by (simp_all add: files_same_def)

lemma files_same_trans: "files_same c d \<Longrightarrow> files_same d e \<Longrightarrow> files_same c e"
  by (simp add: files_same_def)

lemma read_files: "files_same c d \<Longrightarrow> sall (\<lambda>(r, e). files_same c e) (read_with_timeout sc a d)"
  unfolding read_with_timeout_def Let_def by (auto intro!: sall_any)

lemma call_files: "files_same c d \<Longrightarrow> sall (\<lambda>(r, e). files_same c e) (call_when b sc q a d)"
  unfolding call_when_def async_call_def using read_files [of c _ sc a] by simp

lemma establish_files:
  "files_same c d \<Longrightarrow> sall (\<lambda>(r, e). files_same c e) (async_establish_data_connection b sc t d)"
  by (simp add: async_establish_data_connection_def Let_def)

lemma init_files: "sall (\<lambda>(r, d). files_same c d) (async_init sc c)"
proof -
  have step: "sall (\<lambda>x. sall (\<lambda>(r, d). files_same c d) (case x of (resp, c) \<Rightarrow> Inr (has_code resp welcome_ready, c)))
      (read_with_timeout sc (sc_welcome sc) c)"
    by (rule sall_mono [OF read_files [of c c]]) auto
  show ?thesis unfolding async_init_def sall_bind by (rule sall_any) (rule step)
qed

text \<open>The state after \<^verbatim>\<open>do_recv_op\<close>, for any outcome of the calls before.\<close>

definition target_opened :: "script \<Rightarrow> client \<Rightarrow> client \<Rightarrow> bool" where
  "target_opened sc c d \<longleftrightarrow>
     opened d = opened c @ [if arg_dummy (sc_args sc) then ''/dev/null'' else arg_file (sc_args sc)] \<and>
     target_fd d = sc_open sc \<and>
     (if sc_open sc < 0 then descriptors d = descriptors c \<and> pipe_fd d = pipe_fd c
      else case sc_pipe sc of
        None \<Rightarrow> descriptors d = sc_open sc # descriptors c \<and> pipe_fd d = pipe_fd c
      | Some (r, w) \<Rightarrow> descriptors d = r # w # sc_open sc # descriptors c \<and> pipe_fd d = (r, w))"

lemma target_opened_simps [simp]:
  "target_opened sc c (d\<lparr>received_file := f\<rparr>) = target_opened sc c d"
  by (simp add: target_opened_def split: option.split)

lemma target_opened_files: "target_opened sc c d \<Longrightarrow> files_same d e \<Longrightarrow> target_opened sc c e"
  by (cases "sc_pipe sc") (auto simp: target_opened_def files_same_def split: if_splits)

lemma do_recv_target: "files_same c d \<Longrightarrow> sall (\<lambda>(b, e). target_opened sc c e) (do_recv_op sc d)"
  unfolding do_recv_op_def Let_def
  by (auto simp: target_opened_def files_same_def intro!: sall_any split: option.split prod.split)

lemma finish_target:
  assumes "target_opened sc c d"
  shows "sall (\<lambda>(r, e). target_opened sc c e) (finish_session sc x d)"
proof -
  have "sall (\<lambda>(r, e). target_opened sc c e) (read_with_timeout sc a d)" for a
    by (rule sall_mono [OF read_files [OF files_same_simps(1)]]) (auto intro: target_opened_files [OF assms])
  then have read: "sall (\<lambda>(r, e). target_opened sc c e) (sbind (read_with_timeout sc a d) (\<lambda>(resp, c).
      Inr (Some (has_code resp transfer_complete), c)))" for a
    unfolding sall_bind by (rule sall_mono) auto
  show ?thesis
  proof (cases x)
    case (Some b)
    with assms read show ?thesis unfolding finish_session_def by (cases b) (simp_all del: sall_bind)
  qed (use assms in \<open>simp add: finish_session_def\<close>)
qed

lemma receive_target:
  assumes "files_same c d"
  shows "sall (\<lambda>(r, e). target_opened sc c e) (receive_session sc n b d)"
  unfolding receive_session_def
proof (rule sall_step2 [OF do_recv_target [OF assms]], rule sall_skip)
  fix ready e and x :: "bool option \<times> recv_impl"
  assume "target_opened sc c e"
  then show "sall (\<lambda>(r, e). target_opened sc c e)
      (case x of (recv_ret, r) \<Rightarrow> finish_session sc recv_ret (e\<lparr>received_file := written_to r\<rparr>))"
    by (cases x) (simp add: finish_target)
qed

lemma session_opens_target: "sall (\<lambda>(r, d). target_opened sc c d) (async_session sc c)"
  unfolding async_session_def
  by (rule sall_step2 [OF init_files [of c]], (rule sall_step2 [OF call_files], assumption)+, rule sall_skip,
      rule sall_step2 [OF call_files], assumption, rule sall_skip,
      rule sall_step2 [OF establish_files], assumption,
      rule sall_step2 [OF call_files], assumption, rule receive_target)

subsection \<open>The end of a client\<close>

text \<open>The system hands out neither the descriptor 0 nor a pipe with it.\<close>

definition proper_script :: "script \<Rightarrow> bool" where
  "proper_script sc \<longleftrightarrow> sc_open sc \<noteq> 0 \<and> (case sc_pipe sc of None \<Rightarrow> True | Some (r, w) \<Rightarrow> 0 < r)"

lemma dtor_closes:
  assumes "target_opened sc new_client d" and "proper_script sc"
  shows "descriptors (client_dtor d) = []"
proof (cases "sc_open sc < 0")
  case True
  with assms(1) show ?thesis by (simp add: target_opened_def new_client_def client_dtor_def Let_def)
next
  case False
  with assms(2) have fd: "0 < sc_open sc" by (simp add: proper_script_def)
  show ?thesis
  proof (cases "sc_pipe sc")
    case None
    with assms(1) fd show ?thesis by (simp add: target_opened_def new_client_def client_dtor_def Let_def)
  next
    case (Some p)
    obtain r w where p: "p = (r, w)" by (cases p)
    with Some assms fd have d: "descriptors d = [r, w, sc_open sc]" "target_fd d = sc_open sc" "pipe_fd d = (r, w)" "0 < r"
      by (simp_all add: target_opened_def new_client_def proper_script_def)
    have "mset (remove1 w (remove1 r (remove1 (sc_open sc) [r, w, sc_open sc]))) = {#}"
      by simp
    then have "remove1 w (remove1 r (remove1 (sc_open sc) [r, w, sc_open sc])) = []"
      unfolding mset_zero_iff .
    with d fd show ?thesis by (simp add: client_dtor_def Let_def)
  qed
qed

lemma run_target:
  assumes "client_run sc = Inr (b, d)"
  shows "target_opened sc new_client d"
proof (cases "async_session sc new_client")
  case (Inr p)
  then obtain r e where p: "async_session sc new_client = Inr (r, e)" by (cases p) simp
  with assms have "d = e" by (simp add: client_run_def split: option.splits)
  with sallD [OF session_opens_target p] show ?thesis by simp
qed (use assms in \<open>simp add: client_run_def\<close>)

lemma run_clients_all:
  "run_clients scs = Inr xs \<Longrightarrow> list_all2 (\<lambda>sc x. client_run sc = Inr x) scs xs"
  by (induction scs arbitrary: xs) (auto simp: sbind_Inr_iff)

lemma clients_close:
  assumes "run_clients scs = Inr xs" and "\<forall>sc \<in> set scs. proper_script sc" and "x \<in> set xs"
  shows "descriptors (client_dtor (snd x)) = []"
proof -
  from assms(3) obtain i where i: "i < length xs" "x = xs ! i" by (auto simp: in_set_conv_nth)
  with run_clients_all [OF assms(1)] have "client_run (scs ! i) = Inr x" "scs ! i \<in> set scs"
    by (simp_all add: list_all2_conv_all_nth)
  with assms(2) show ?thesis using dtor_closes run_target by (metis prod.collapse)
qed

subsection \<open>A session with the server\<close>

text \<open>A line of the server that comes in whole and in time.\<close>

definition line_answer :: "string \<Rightarrow> answer" where
  "line_answer l = \<lparr>timed_out = False, an_ec = Success, an_chunk = l, an_n = length l\<rparr>"

lemma read_line:
  "buf_in c = [] \<Longrightarrow> build_resp l = Inr resp \<Longrightarrow> read_with_timeout sc (line_answer l) c = Inr (resp, c)"
  by (simp add: read_with_timeout_def line_answer_def)

lemma call_line:
  "buf_in c = [] \<Longrightarrow> build_resp l = Inr resp \<Longrightarrow>
   call_when True sc q (line_answer l) c = Inr (resp, c\<lparr>requests_sent := requests_sent c @ [build_req q]\<rparr>)"
  by (simp add: call_when_def async_call_def read_line)

text \<open>
  The script of a session in which the server answers with its own replies, the connections
  come about and the file, of \<open>n\<close> bytes, arrives in good events.
\<close>

definition cooperative :: "script \<Rightarrow> string \<Rightarrow> nat \<Rightarrow> string list \<Rightarrow> u16 \<Rightarrow> ready list \<Rightarrow> ready \<Rightarrow> bool" where
  "cooperative sc banner n ips p es z \<longleftrightarrow>
     sc_resolve sc \<and> sc_connect sc \<and> (\<exists>lp. sc_local_endpoint sc = Inr lp) \<and>
     sc_welcome sc = line_answer (get_code_string_info welcome_ready banner) \<and>
     sc_user sc = line_answer (get_code_string password_required) \<and>
     sc_pass sc = line_answer (get_code_string logged_on) \<and>
     sc_size sc = line_answer (get_code_string_info size_or_mdtm_ok (show_nat n)) \<and>
     sc_pasv sc = line_answer (get_pasv_response (join_with ''.'' ips) p) \<and>
     sc_retr sc = line_answer (get_code_string data_conn) \<and>
     sc_final sc = line_answer (get_code_string transfer_complete) \<and>
     sc_data_resolve sc \<and> sc_data_connect sc \<and> 0 < sc_data_port sc \<and>
     0 \<le> sc_open sc \<and> sc_pipe sc \<noteq> None \<and> sc_events sc = es @ [z] \<and>
     length ips = 4 \<and> list_all numeral_string ips \<and> int n < 2 ^ 63 \<and> (n \<noteq> 0 \<or> arg_dummy (sc_args sc)) \<and>
     list_all good_event es \<and> rd_ec z = Success \<and> rd_available z = 0"

definition requests_of :: "string \<Rightarrow> ftp_request list" where
  "requests_of f = [\<lparr>command = ''user'', body = ''anonymous''\<rparr>, \<lparr>command = ''pass'', body = []\<rparr>,
     \<lparr>command = ''size'', body = f\<rparr>, \<lparr>command = ''pasv'', body = []\<rparr>, \<lparr>command = ''retr'', body = f\<rparr>]"

lemma receive_cooperative:
  assumes c: "cooperative sc banner n ips p es z" and "buf_in d = []"
  shows "\<exists>e. receive_session sc (int n) True d = Inr (Some True, e) \<and>
           requests_sent e = requests_sent d \<and> data_peer e = data_peer d \<and>
           received_file e = concat (map (\<lambda>e. received (rd_splices e)) es)"
proof -
  obtain lp r w where env: "sc_local_endpoint sc = Inr lp" "\<not> sc_open sc < 0" "sc_pipe sc = Some (r, w)"
    using c by (auto simp: cooperative_def)
  obtain u where u: "do_recv_op sc d = Inr (True, u)" "buf_in u = []" "requests_sent u = requests_sent d"
    "data_peer u = data_peer d"
    using env assms(2) by (simp add: do_recv_op_def Let_def)
  have hook: "progress_hook (sc_args sc) (int n) = free"
    using c by (intro ext) (auto simp: progress_hook_def free_def cooperative_def)
  have es: "\<forall>e \<in> set es. good_event e" "sc_events sc = es @ [z]" "rd_ec z = Success" "rd_available z = 0"
    using c by (simp_all add: cooperative_def list_all_iff)
  obtain t where t: "receive_file free (es @ [z]) = Inr (Some True, t)"
    "written_to t = concat (map (\<lambda>e. received (rd_splices e)) es)"
    using recv_file_copies [OF es(1,3,4)] by blast
  let ?u = "u\<lparr>received_file := written_to t\<rparr>"
  have "read_with_timeout sc (sc_final sc) ?u =
      Inr (Some \<lparr>code = int (code_num transfer_complete), msg = ''Transfer complete.'' @ crlf\<rparr>, ?u)"
    using c u(2) build_resp_code [of transfer_complete] by (simp add: cooperative_def read_line)
  then have "finish_session sc (Some True) ?u = Inr (Some True, ?u)"
    by (simp add: finish_session_def del: code_num.simps)
  with u t hook es(2) show ?thesis by (simp add: receive_session_def)
qed

lemma session_cooperative:
  assumes c: "cooperative sc banner n ips p es z"
  shows "\<exists>d. async_session sc new_client = Inr (Some True, d) \<and>
           requests_sent d = map build_req (requests_of (arg_file (sc_args sc))) \<and>
           data_peer d = Some (join_with ''.'' ips, p) \<and>
           received_file d = concat (map (\<lambda>e. received (rd_splices e)) es)"
proof -
  obtain lp where env: "sc_local_endpoint sc = Inr lp" "sc_resolve sc" "sc_connect sc" "sc_data_resolve sc"
    "sc_data_connect sc" "0 < sc_data_port sc"
    using c by (auto simp: cooperative_def)
  have ans: "sc_welcome sc = line_answer (get_code_string_info welcome_ready banner)"
     "sc_user sc = line_answer (get_code_string password_required)"
     "sc_pass sc = line_answer (get_code_string logged_on)"
     "sc_size sc = line_answer (get_code_string_info size_or_mdtm_ok (show_nat n))"
     "sc_pasv sc = line_answer (get_pasv_response (join_with ''.'' ips) p)"
     "sc_retr sc = line_answer (get_code_string data_conn)"
    using c by (simp_all add: cooperative_def)
  have n: "int n < 2 ^ (64 - 1)" and ips: "length ips = 4" "\<forall>d \<in> set ips. numeral_string d"
    using c by (simp_all add: cooperative_def list_all_iff)
  have size: "sto 64 (show_nat n @ crlf) = Inr (int n)"
    by (rule sto_show_nat [OF n]) (simp add: crlf_def isdigit_def)
  have start: "async_init sc new_client = Inr (True, new_client)"
    using env ans(1) by (simp add: async_init_def read_line build_resp_info new_client_def del: code_num.simps)
  obtain m where m: "build_resp (get_pasv_response (join_with ''.'' ips) p) =
      Inr (Some \<lparr>code = int (code_num pasv_ok), msg = m\<rparr>)"
    "pasv_target m = Inr (Some (join_with ''.'' ips, p))"
    using pasv_reply [OF ips] pasv_target_reply [OF ips] by blast
  let ?f = "arg_file (sc_args sc)"
  define d where "d = new_client\<lparr>requests_sent := map build_req (requests_of ?f), has_data_socket := True,
     data_peer := Some (join_with ''.'' ips, p)\<rparr>"
  have "async_session sc new_client = receive_session sc (int n) True d"
    unfolding async_session_def start ans d_def requests_of_def
    using env size
    by (simp add: call_line build_resp_code build_resp_info m new_client_def async_establish_data_connection_def del: code_num.simps)
  moreover have "buf_in d = []" "requests_sent d = map build_req (requests_of ?f)"
    "data_peer d = Some (join_with ''.'' ips, p)" by (simp_all add: d_def new_client_def)
  ultimately show ?thesis using receive_cooperative [OF c, of d] by auto
qed

subsection \<open>A script\<close>

definition sample_event :: ready where
  "sample_event = \<lparr>rd_ec = Success, rd_available = 5, rd_ignored = False,
     rd_splices = [(SpData ''hello'', [2, 3]), (SpAgain, [])]\<rparr>"

definition refused :: answer where
  "refused = \<lparr>timed_out = False, an_ec = OtherError, an_chunk = [], an_n = 0\<rparr>"

definition sample_script :: script where
  "sample_script = \<lparr>sc_args = \<lparr>arg_file = ''f'', arg_dummy = False\<rparr>, sc_resolve = True, sc_connect = True,
     sc_local_endpoint = Inr 40000,
     sc_welcome = line_answer (get_code_string_info welcome_ready ''Hi''),
     sc_user = line_answer (get_code_string password_required),
     sc_pass = line_answer (get_code_string logged_on),
     sc_size = line_answer (get_code_string_info size_or_mdtm_ok (show_nat 5)),
     sc_pasv = line_answer (get_pasv_response (join_with ''.'' [''10'', ''0'', ''0'', ''1'']) 5001),
     sc_data_resolve = True, sc_data_connect = True, sc_data_port = 5001,
     sc_retr = line_answer (get_code_string data_conn), sc_open = 4, sc_pipe = Some (5, 6),
     sc_events = [sample_event] @ [no_event], sc_final = line_answer (get_code_string transfer_complete)\<rparr>"

lemma sample_script_cooperative:
  "cooperative sample_script ''Hi'' 5 [''10'', ''0'', ''0'', ''1''] 5001 [sample_event] no_event"
  by (simp add: cooperative_def sample_script_def numeral_string_def isdigit_def Let_def good_event_def
        sample_event_def no_event_def all_drain_def drains.simps)

end
