(* ===== verification/Conversation.thy ===== *)
theory Conversation
  imports Transfer_Sessions Client_Facts
begin

text \<open>
  The client and the server together: the requests the client sends are what the server
  reads, and the replies the server writes are what the client reads.
\<close>

subsection \<open>The requests of the client, one exchange each\<close>

lemma plain_operation:
  assumes "at_rest s"
  shows "lookup_op (next_op s) (created c (listening r s)) = Some (Plain c)"
proof -
  have "op_inv 0 (listening r s)" using rest_op_inv [OF assms] by (auto simp: op_inv_def dest: notin_set_remove1)
  from created_found [OF this] show ?thesis by simp
qed

lemma account_enqueue: "account (enqueue b m s) = account s"
  by (simp add: account_def)

lemma created_account [simp]:
  "verified (created c (listening r s)) = verified s" "user (created c (listening r s)) = user s"
  "transport (created c (listening r s)) = transport s" "acceptor (created c (listening r s)) = acceptor s"
  "account (created c (listening r s)) = account s" "get_target_path (created c (listening r s)) p = get_target_path s p"
  by (simp_all add: created_def basic_op_ctor_def Let_def account_def get_target_path_def)

text \<open>An exchange whose operation ends in one reply, put on the state \<open>x\<close>.\<close>

lemma reply_exchange:
  assumes "at_rest s" and "parse_line l (request s) = (True, r)" and "peer_ok e"
    and "served_by s r = Some c" "c \<notin> {SendFileOp, RecvFileOp, ListOp}"
    and "do_operation (brings l e) (next_op s) (created c (listening r s)) = Inr (enqueue b NoToken x)"
    and "submitted x = submitted s"
  shows "\<exists>t. execute (ask_with e l) s = Some t \<and> at_rest t \<and> account t = account x \<and> acceptor t = acceptor x \<and>
     next_op t = Suc (next_op s) \<and> sent t = sent s @ [b]"
  using exchange [OF assms(1-4) _ _ _ assms(6)] assms(5,7) by (auto simp: account_enqueue)

lemma user_exchange:
  assumes r: "at_rest s" and "parse_line l (request s) = (True, \<lparr>command = ''USER'', body = u\<rparr>)"
    and "\<not> verified s" and "peer_ok e"
  shows "\<exists>t. execute (ask_with e l) s = Some t \<and> at_rest t \<and> account t = account (s\<lparr>user := u\<rparr>) \<and> acceptor t = acceptor s \<and>
     next_op t = Suc (next_op s) \<and> sent t = sent s @ [get_code_string password_required]"
proof -
  let ?r = "\<lparr>command = ''USER'', body = u\<rparr>"
  let ?x = "(created AuthOp (listening ?r s))\<lparr>user := u\<rparr>"
  have op: "do_operation (brings l e) (next_op s) (created AuthOp (listening ?r s)) = Inr (enqueue (get_code_string password_required) NoToken ?x)"
    by (simp add: do_operation_def plain_operation [OF r] auth_op_def reply_eq)
  have c: "served_by s ?r = Some AuthOp" using assms(3) by (simp add: served_by_def)
  have a: "account ?x = account (s\<lparr>user := u\<rparr>)" by (simp add: account_def)
  from reply_exchange [OF r assms(2,4) c _ op] show ?thesis by (simp add: a)
qed

lemma pass_exchange:
  assumes r: "at_rest s" and "parse_line l (request s) = (True, \<lparr>command = ''PASS'', body = pw\<rparr>)"
    and "\<not> verified s" "user s \<noteq> []" and "peer_ok e"
  shows "\<exists>t. execute (ask_with e l) s = Some t \<and> at_rest t \<and>
     account t = account (s\<lparr>verified := True, is_anonymous := anonymous_name (cfg e) (user s)\<rparr>) \<and> acceptor t = acceptor s \<and>
     next_op t = Suc (next_op s) \<and> sent t = sent s @ [get_code_string logged_on]"
proof -
  let ?r = "\<lparr>command = ''PASS'', body = pw\<rparr>"
  let ?x = "(created AuthOp (listening ?r s))\<lparr>password := pw, is_anonymous := anonymous_name (cfg e) (user s), verified := True\<rparr>"
  have op: "do_operation (brings l e) (next_op s) (created AuthOp (listening ?r s)) = Inr (enqueue (get_code_string logged_on) NoToken ?x)"
    using assms(4) by (cases "anonymous_enable (cfg e)") (simp_all add: do_operation_def plain_operation [OF r] auth_op_def validate_def reply_eq anonymous_name_def)
  have c: "served_by s ?r = Some AuthOp" using assms(3) by (simp add: served_by_def)
  have a: "account ?x = account (s\<lparr>verified := True, is_anonymous := anonymous_name (cfg e) (user s)\<rparr>)"
    by (simp add: account_def)
  from reply_exchange [OF r assms(2,5) c _ op] show ?thesis by (simp add: a)
qed

lemma size_exchange:
  assumes r: "at_rest s" and "parse_line l (request s) = (True, \<lparr>command = ''SIZE'', body = f\<rparr>)"
    and "verified s" and "peer_ok e"
    and "os_exists (sys e) (world s) (get_target_path s f) = Inr True"
      "os_is_regular_file (sys e) (world s) (get_target_path s f) = Inr True"
      "os_file_size (sys e) (world s) (get_target_path s f) = Inr n"
  shows "\<exists>t. execute (ask_with e l) s = Some t \<and> at_rest t \<and> account t = account s \<and> acceptor t = acceptor s \<and>
     next_op t = Suc (next_op s) \<and> sent t = sent s @ [get_code_string_info size_or_mdtm_ok (show_nat (unat n))]"
proof -
  let ?r = "\<lparr>command = ''SIZE'', body = f\<rparr>"
  let ?x = "created SizeOp (listening ?r s)"
  have op: "do_operation (brings l e) (next_op s) ?x = Inr (enqueue (get_code_string_info size_or_mdtm_ok (show_nat (unat n))) NoToken ?x)"
    using assms(5-7) by (simp add: do_operation_def plain_operation [OF r] size_op_def reply_eq Let_def)
  have c: "served_by s ?r = Some SizeOp" using assms(3) by (simp add: served_by_def registrations_def)
  from reply_exchange [OF r assms(2,4) c _ op] show ?thesis by simp
qed

definition listens :: "'w env \<Rightarrow> string \<Rightarrow> u16 \<Rightarrow> bool" where
  "listens e ip p \<longleftrightarrow> acc_open_ok e \<and> acc_option_ok e \<and> acc_bind_ok e \<and> acc_listen_ok e \<and> control_addr e = Inr ip \<and> acc_port e = p"

lemma pasv_exchange:
  assumes r: "at_rest s" and "parse_line l (request s) = (True, \<lparr>command = ''PASV'', body = f\<rparr>)"
    and "verified s" and "peer_ok e" and "listens e ip p"
  shows "\<exists>t. execute (ask_with e l) s = Some t \<and> at_rest t \<and> account t = account s \<and> acceptor t = AccListening p \<and>
     next_op t = Suc (next_op s) \<and> sent t = sent s @ [get_pasv_response ip p]"
proof -
  let ?r = "\<lparr>command = ''PASV'', body = f\<rparr>"
  let ?x = "(created PassiveModeOp (listening ?r s))\<lparr>acceptor := AccListening p\<rparr>"
  have "acc_open_ok (brings l e)" "acc_option_ok (brings l e)" "acc_bind_ok (brings l e)" "acc_listen_ok (brings l e)"
    "control_addr (brings l e) = Inr ip" "acc_port (brings l e) = p"
    using assms(5) by (simp_all add: brings_def listens_def)
  then have op: "do_operation (brings l e) (next_op s) (created PassiveModeOp (listening ?r s)) = Inr (enqueue (get_pasv_response ip p) NoToken ?x)"
    by (simp add: do_operation_def plain_operation [OF r] passive_mode_op_def reply_eq Let_def)
  have c: "served_by s ?r = Some PassiveModeOp" using assms(3) by (simp add: served_by_def registrations_def)
  have a: "account ?x = account s" by (simp add: account_def)
  from reply_exchange [OF r assms(2,4) c _ op] show ?thesis by (simp add: a)
qed

text \<open>The greeting.\<close>

definition greeting_of :: "config \<Rightarrow> string" where
  "greeting_of c = (if ftpd_banner c = [] then ''Welcome to ftpd.'' else ftpd_banner c)"

lemma greeted:
  "\<exists>t. execute [(good e, OnBanner (get_code_string_info welcome_ready (greeting_of c)))] (start c (new_context home 0 peer w)) = Some t \<and>
     at_rest t \<and> account t = account (new_context home 0 peer w) \<and> next_op t = 0 \<and>
     sent t = [get_code_string_info welcome_ready (greeting_of c)] \<and> acceptor t = AccClosed"
proof -
  let ?b = "get_code_string_info welcome_ready (greeting_of c)"
  let ?s = "(new_context home 0 peer w)\<lparr>submitted := [?b], sent := [?b], pending := []\<rparr>"
  let ?t = "start_idle_timer (do_read (update_idle_timer (good e) (max_idle_timeout (cfg e)) ?s))"
  have s: "start c (new_context home 0 peer w) = (new_context home 0 peer w)\<lparr>submitted := [?b], pending := [OnBanner ?b]\<rparr>"
    by (simp add: start_def greeting_of_def add_pending_def new_context_def Let_def)
  have ops: "operators ?t = []" and p: "pending ?t = [OnRead, OnIdle]"
    by (simp_all add: start_idle_timer_def do_read_def add_pending_def update_idle_timer_def new_context_def)
  have "drop_session ?t = ?t" by (rule session_kept) (simp add: p)
  then have "complete (good e) (OnBanner ?b) (start c (new_context home 0 peer w)) = Inr ?t"
    unfolding s using calm_release [OF ops, of "good e"]
    by (simp add: complete_def handler_body_def on_banner_def new_context_def)
  moreover have "deliverable (OnBanner ?b) (start c (new_context home 0 peer w))" unfolding s by (simp add: deliverable_def)
  moreover have "at_rest ?t" using ops p
    by (simp add: at_rest_def) (simp add: start_idle_timer_def do_read_def add_pending_def update_idle_timer_def new_context_def)
  ultimately show ?thesis
    by (simp add: start_idle_timer_def do_read_def add_pending_def update_idle_timer_def)
       (simp add: new_context_def account_def)
qed

subsection \<open>The conversation\<close>

text \<open>
  What the server completes, in order: the greeting, then for each of the first four requests
  the read that brings it and the write of the reply, then the download, whose operator is the
  fifth of the session.
\<close>

definition conversation :: "'w env \<Rightarrow> string \<Rightarrow> 'w env list \<Rightarrow> ('w env \<times> handler) list" where
  "conversation e f es =
     [(good e, OnBanner (get_code_string_info welcome_ready (greeting_of (cfg e))))] @
     concat (map (\<lambda>r. ask_with e (build_req r)) (take 4 (requests_of f))) @
     download_session e (build_req (requests_of f ! 4)) 4 es"

text \<open>The file the client asks for, as the server finds it, of \<open>n\<close> bytes.\<close>

definition offers :: "'w env \<Rightarrow> path \<Rightarrow> 'w \<Rightarrow> string \<Rightarrow> u64 \<Rightarrow> bool" where
  "offers e home w f n \<longleftrightarrow> (let p = (if \<not> is_absolute f then path_append home f else f) in
     os_exists (sys e) w p = Inr True \<and> os_is_regular_file (sys e) w p = Inr True \<and>
     os_file_size (sys e) w p = Inr n \<and> 0 < os_open_read (sys e) w p)"

definition replies_for :: "config \<Rightarrow> u64 \<Rightarrow> string \<Rightarrow> u16 \<Rightarrow> string list" where
  "replies_for c n ip p = [get_code_string_info welcome_ready (greeting_of c), get_code_string password_required,
     get_code_string logged_on, get_code_string_info size_or_mdtm_ok (show_nat (unat n)), get_pasv_response ip p,
     get_code_string data_conn, get_code_string transfer_complete]"

lemma request_heard:
  assumes "is_word cmd" and "list_all is_word ws" and "map toupper cmd = k" and "b = join_with '' '' ws"
  shows "parse_line (build_req \<lparr>command = cmd, body = b\<rparr>) q = (True, \<lparr>command = k, body = b\<rparr>)"
  using parse_build_req [of cmd ws q] assms by (simp add: list_all_iff)

lemma client_words: "is_word ''user''" "is_word ''pass''" "is_word ''size''" "is_word ''pasv''" "is_word ''retr''" "is_word ''anonymous''"
  "map toupper ''user'' = ''USER''" "map toupper ''pass'' = ''PASS''" "map toupper ''size'' = ''SIZE''"
  "map toupper ''pasv'' = ''PASV''" "map toupper ''retr'' = ''RETR''"
  by code_simp+

lemma served_conversation:
  assumes ce: "connection_ok e" and l: "listens e ip p" and o: "offers e home w f n"
    and f: "f = join_with '' '' ws" "list_all is_word ws" "ws \<noteq> []"
    and es: "\<forall>e \<in> set es. takes_bytes e" "unat n \<le> length es" "es \<noteq> []"
    and len: "length c = unat n"
  shows "\<exists>k t. k \<le> length es \<and> execute (conversation e f (take k es)) (start (cfg e) (new_context home 0 peer w)) = Some t \<and>
     at_rest t \<and> sent t = replies_for (cfg e) n ip p \<and> user t = ''anonymous'' \<and> verified t \<and> world t = w \<and>
     bytes_sent c (unsent n) (take k es) = c"
proof -
  note words = request_heard [OF client_words(1) _ client_words(7), of "[''anonymous'']" "''anonymous''"]
    request_heard [OF client_words(2) _ client_words(8), of "[]" "[]"] request_heard [OF client_words(3) f(2) client_words(9) f(1)]
    request_heard [OF client_words(4) _ client_words(10), of "[]" "[]"] request_heard [OF client_words(5) f(2) client_words(11) f(1)]
  have pk: "peer_ok e" using ce by (simp add: connection_ok_def)
  let ?s = "start (cfg e) (new_context home 0 peer w)"
  obtain s0 where s0: "execute [(good e, OnBanner (get_code_string_info welcome_ready (greeting_of (cfg e))))] ?s = Some s0" "at_rest s0"
    "account s0 = account (new_context home 0 peer w)" "next_op s0 = 0"
    "sent s0 = [get_code_string_info welcome_ready (greeting_of (cfg e))]"
    using greeted [of e "cfg e" home peer w] by blast
  have a0: "\<not> verified s0" "current_path s0 = home" "world s0 = w" using s0(3) by (simp_all add: account_def new_context_def)
  obtain s1 where s1: "execute (ask_with e (build_req \<lparr>command = ''user'', body = ''anonymous''\<rparr>)) s0 = Some s1" "at_rest s1"
    "account s1 = account (s0\<lparr>user := ''anonymous''\<rparr>)" "next_op s1 = Suc (next_op s0)" "sent s1 = sent s0 @ [get_code_string password_required]"
    using user_exchange [OF s0(2) words(1) a0(1) pk] client_words(6) by auto
  have a1: "\<not> verified s1" "user s1 = ''anonymous''" "current_path s1 = home" "world s1 = w"
    using s1(3) a0 by (simp_all add: account_def)
  obtain s2 where s2: "execute (ask_with e (build_req \<lparr>command = ''pass'', body = []\<rparr>)) s1 = Some s2" "at_rest s2"
    "account s2 = account (s1\<lparr>verified := True, is_anonymous := anonymous_name (cfg e) (user s1)\<rparr>)"
    "next_op s2 = Suc (next_op s1)" "sent s2 = sent s1 @ [get_code_string logged_on]"
    using pass_exchange [OF s1(2) words(2) a1(1) _ pk] a1(2) by auto
  have a2: "verified s2" "user s2 = ''anonymous''" "current_path s2 = home" "world s2 = w"
    using s2(3) a1 by (simp_all add: account_def)
  have target: "get_target_path x f = (if \<not> is_absolute f then path_append home f else f)" if "current_path x = home" for x :: "'a sess"
    using that by (simp add: get_target_path_def)
  have found: "os_exists (sys e) w (get_target_path x f) = Inr True" "os_is_regular_file (sys e) w (get_target_path x f) = Inr True"
    "os_file_size (sys e) w (get_target_path x f) = Inr n" "0 < os_open_read (sys e) w (get_target_path x f)"
    if "current_path x = home" for x :: "'a sess"
    using o unfolding target [OF that] by (simp_all add: offers_def Let_def)
  obtain s3 where s3: "execute (ask_with e (build_req \<lparr>command = ''size'', body = f\<rparr>)) s2 = Some s3" "at_rest s3"
    "account s3 = account s2" "next_op s3 = Suc (next_op s2)" "sent s3 = sent s2 @ [get_code_string_info size_or_mdtm_ok (show_nat (unat n))]"
    using size_exchange [OF s2(2) words(3) a2(1) pk, of n] found [OF a2(3)] a2(4) by auto
  have a3: "verified s3" "user s3 = ''anonymous''" "current_path s3 = home" "world s3 = w"
    using s3(3) a2 by (simp_all add: account_def)
  obtain s4 where s4: "execute (ask_with e (build_req \<lparr>command = ''pasv'', body = []\<rparr>)) s3 = Some s4" "at_rest s4"
    "account s4 = account s3" "acceptor s4 = AccListening p" "next_op s4 = Suc (next_op s3)" "sent s4 = sent s3 @ [get_pasv_response ip p]"
    using pasv_exchange [OF s3(2) words(4) a3(1) pk l] by auto
  have a4: "verified s4" "user s4 = ''anonymous''" "current_path s4 = home" "world s4 = w"
    using s4(3) a3 by (simp_all add: account_def)
  have i: "next_op s4 = 4" using s0(4) s1(4) s2(4) s3(4) s4(5) by simp
  have "f \<noteq> []" using f by (cases ws rule: list.exhaust; cases "tl ws") (auto simp: is_word_def)
  then have fs: "file_served e s4 f n" using found [OF a4(3)] a4(4) by (simp add: file_served_def)
  have srv: "served_by s4 \<lparr>command = ''RETR'', body = f\<rparr> = Some SendFileOp" using a4(1) by (simp add: served_by_def registrations_def)
  obtain k t where t: "k \<le> length es"
    "execute (download_session e (build_req \<lparr>command = ''retr'', body = f\<rparr>) 4 (take k es)) s4 = Some t" "at_rest t"
    "account t = account s4" "sent t = sent s4 @ [get_code_string data_conn, get_code_string transfer_complete]"
    "bytes_sent c (unsent n) (take k es) = c"
    using download_complete [OF s4(2) words(5) srv _ _ ce es len] fs s4(4) unfolding i by auto
  have "execute (conversation e f (take k es)) ?s = Some t"
    unfolding conversation_def requests_of_def execute_append s0(1)
    using s1(1) s2(1) s3(1) s4(1) t(2) by (simp add: execute_append)
  moreover have "sent t = replies_for (cfg e) n ip p"
    using s0(5) s1(5) s2(5) s3(5) s4(6) t(5) by (simp add: replies_for_def)
  moreover have "user t = ''anonymous''" "verified t" "world t = w" using t(4) a4 by (simp_all add: account_def)
  ultimately show ?thesis using t(1,3,6) by blast
qed

subsection \<open>The client at the other end\<close>

text \<open>The client's script in which every line it waits for is a line the server wrote.\<close>

definition hears :: "script \<Rightarrow> string list \<Rightarrow> script" where
  "hears sc rs = sc\<lparr>sc_welcome := line_answer (rs ! 0), sc_user := line_answer (rs ! 1), sc_pass := line_answer (rs ! 2),
     sc_size := line_answer (rs ! 3), sc_pasv := line_answer (rs ! 4), sc_retr := line_answer (rs ! 5),
     sc_final := line_answer (rs ! 6)\<rparr>"

text \<open>What does not depend on the server's replies: connections, descriptors, the received data.\<close>

definition client_ready :: "script \<Rightarrow> u64 \<Rightarrow> ready list \<Rightarrow> ready \<Rightarrow> bool" where
  "client_ready sc n xs z \<longleftrightarrow> sc_resolve sc \<and> sc_connect sc \<and> \<not> isl (sc_local_endpoint sc) \<and>
     sc_data_resolve sc \<and> sc_data_connect sc \<and> 0 < sc_data_port sc \<and> 0 \<le> sc_open sc \<and> sc_pipe sc \<noteq> None \<and>
     sc_events sc = xs @ [z] \<and> (n \<noteq> 0 \<or> arg_dummy (sc_args sc)) \<and>
     list_all good_event xs \<and> rd_ec z = Success \<and> rd_available z = 0"

lemma ready_cooperative:
  assumes "client_ready sc n xs z" and "length ips = 4" "list_all numeral_string ips" and "unat n < 2 ^ 63"
  shows "cooperative (hears sc (replies_for c n (join_with ''.'' ips) p)) (greeting_of c) (unat n) ips p xs z"
proof -
  have "n \<noteq> 0 \<Longrightarrow> unat n \<noteq> 0" by (simp add: unat_eq_0)
  moreover have "int (unat n) < 2 ^ 63" using assms(4) by (simp only: of_nat_less_numeral_power_cancel_iff)
  moreover obtain lp where "sc_local_endpoint sc = Inr lp" using assms(1) result_exists by (auto simp: client_ready_def)
  ultimately show ?thesis
    using assms unfolding cooperative_def client_ready_def hears_def replies_for_def by auto
qed

lemma conversation_succeeds:
  assumes ce: "connection_ok e" and l: "listens e (join_with ''.'' ips) p" and o: "offers e home w f n"
    and ips: "length ips = 4" "list_all numeral_string ips" and n: "unat n < 2 ^ 63"
    and f: "f = join_with '' '' ws" "list_all is_word ws" "ws \<noteq> []"
    and es: "\<forall>e \<in> set es. takes_bytes e" "unat n \<le> length es" "es \<noteq> []" and len: "length c = unat n"
    and sc: "client_ready sc n xs z" "arg_file (sc_args sc) = f"
  shows "\<exists>k t d. k \<le> length es \<and> execute (conversation e f (take k es)) (start (cfg e) (new_context home 0 peer w)) = Some t \<and>
     at_rest t \<and> async_session (hears sc (sent t)) new_client = Inr (Some True, d) \<and>
     requests_sent d = map build_req (requests_of f) \<and> data_peer d = Some (join_with ''.'' ips, p) \<and>
     received_file d = concat (map (\<lambda>e. received (rd_splices e)) xs) \<and>
     bytes_sent c (unsent n) (take k es) = c"
proof -
  obtain k t where t: "k \<le> length es" "execute (conversation e f (take k es)) (start (cfg e) (new_context home 0 peer w)) = Some t"
    "at_rest t" "sent t = replies_for (cfg e) n (join_with ''.'' ips) p" "bytes_sent c (unsent n) (take k es) = c"
    using served_conversation [OF ce l o f es len] by blast
  have "sc_args (hears sc (sent t)) = sc_args sc" by (simp add: hears_def)
  with session_cooperative [OF ready_cooperative [OF sc(1) ips n, of "cfg e" p], folded t(4)]
  have "\<exists>d. async_session (hears sc (sent t)) new_client = Inr (Some True, d) \<and>
    requests_sent d = map build_req (requests_of f) \<and> data_peer d = Some (join_with ''.'' ips, p) \<and>
    received_file d = concat (map (\<lambda>e. received (rd_splices e)) xs)" by (simp only: sc(2))
  with t(1-3,5) show ?thesis by blast
qed

end
