(* ===== verification/Process_Sessions.thy ===== *)
theory Process_Sessions
  imports Process Conversation
begin

text \<open>
  Sessions inside the process: what one session does by itself it does in the process as
  well, on its worker and beside the other sessions, which it leaves as they are. The
  reply to STAT, which reads the client counter, is one such run.
\<close>

subsection \<open>The run of one session as a run of the process\<close>

text \<open>The session \<open>k\<close> of the process as its handlers find it.\<close>

definition session_at :: "nat \<Rightarrow> 'w process \<Rightarrow> 'w sess" where
  "session_at k p = (snd (assigned (srv p) ! k))\<lparr>world := files p\<rparr>"

definition serviceable :: "nat \<Rightarrow> 'w process \<Rightarrow> bool" where
  "serviceable k p \<longleftrightarrow> k < length (assigned (srv p)) \<and> ended p = None \<and> fst (assigned (srv p) ! k) \<notin> stuck p"

text \<open>All but the session \<open>k\<close> and the files.\<close>

definition beside :: "nat \<Rightarrow> 'w process \<Rightarrow> 'w process \<Rightarrow> bool" where
  "beside k p q \<longleftrightarrow> length (assigned (srv q)) = length (assigned (srv p)) \<and>
     (\<forall>j. j \<noteq> k \<longrightarrow> assigned (srv q) ! j = assigned (srv p) ! j) \<and>
     fst (assigned (srv q) ! k) = fst (assigned (srv p) ! k) \<and> client_count (srv q) = client_count (srv p) \<and>
     stuck q = stuck p \<and> ended q = ended p"

lemma deliverable_world [simp]: "deliverable h (s\<lparr>world := w\<rparr>) \<longleftrightarrow> deliverable h s"
  by (simp add: deliverable_def)

lemma served_session:
  assumes p: "serviceable k p" and h: "deliverable h (session_at k p)" "env_in E c p e"
    and y: "complete e h (session_at k p) = Inr y" "\<not> destroyed y"
  shows "process_step E c p (serve e k h p) \<and> session_at k (serve e k h p) = y \<and>
     serviceable k (serve e k h p) \<and> beside k p (serve e k h p)"
proof -
  obtain wk x where x: "assigned (srv p) ! k = (wk, x)" by (cases "assigned (srv p) ! k") auto
  have s: "session_at k p = x\<lparr>world := files p\<rparr>" by (simp add: session_at_def x)
  have v: "serve e k h p = p\<lparr>srv := (srv p)\<lparr>assigned := (assigned (srv p))[k := (wk, y)]\<rparr>, files := world y\<rparr>"
    using y by (simp add: serve_def x s Let_def)
  have "process_step E c p (serve e k h p)"
    by (rule process_step.handle [OF _ _ x]) (use p h x in \<open>auto simp: serviceable_def s\<close>)
  with p show ?thesis unfolding v by (simp add: session_at_def serviceable_def beside_def x)
qed

lemma beside_env: "beside k p q \<Longrightarrow> env_in E c q e \<longleftrightarrow> env_in E c p e"
  by (simp add: beside_def env_in_def)

lemma beside_trans: "beside k p q \<Longrightarrow> beside k q r \<Longrightarrow> beside k p r"
  by (simp add: beside_def)

lemma execute_end_alive: "execute es s = Some t \<Longrightarrow> es \<noteq> [] \<Longrightarrow> \<not> destroyed s"
  by (cases "(es, s)" rule: execute.cases) (auto simp: complete_def split: if_splits)

lemma session_runs:
  assumes "serviceable k p" and "execute es (session_at k p) = Some t" and "\<not> destroyed t"
    and "\<forall>(e, h) \<in> set es. env_in E c p e"
  shows "\<exists>q. (process_step E c)\<^sup>*\<^sup>* p q \<and> session_at k q = t \<and> serviceable k q \<and> beside k p q"
  using assms
proof (induction es arbitrary: p)
  case Nil
  then show ?case by (intro exI [of _ p]) (simp add: beside_def)
next
  case (Cons eh es)
  obtain e h where eh: "eh = (e, h)" by (cases eh)
  obtain y where y: "complete e h (session_at k p) = Inr y" "deliverable h (session_at k p)" "execute es y = Some t"
    using Cons.prems(2) by (auto simp: eh split: if_splits sum.splits)
  have "\<not> destroyed y" using y(3) Cons.prems(3) execute_end_alive [of es y t] by (cases es) auto
  moreover have "env_in E c p e" using Cons.prems(4) by (simp add: eh)
  ultimately have one: "process_step E c p (serve e k h p)" "session_at k (serve e k h p) = y"
    "serviceable k (serve e k h p)" "beside k p (serve e k h p)"
    using served_session [OF Cons.prems(1) y(2) _ y(1)] by blast+
  have "\<forall>(e', h') \<in> set es. env_in E c (serve e k h p) e'"
    using Cons.prems(4) beside_env [OF one(4), of E c] by (auto simp: eh)
  then obtain q where "(process_step E c)\<^sup>*\<^sup>* (serve e k h p) q" "session_at k q = t" "serviceable k q"
    "beside k (serve e k h p) q"
    using Cons.IH [OF one(3) _ Cons.prems(3)] y(3) one(2) by blast
  with one(1,4) show ?case
    by (intro exI [of _ q]) (auto intro: converse_rtranclp_into_rtranclp beside_trans)
qed

subsection \<open>The client counter and the reply to STAT\<close>

text \<open>While the counter has not wrapped, it shows the number of living sessions.\<close>

lemma counter_shows:
  assumes "sessions_ok E c hw (srv p)" and "live_sessions p < 2 ^ 31"
  shows "client_num (client_count (srv p)) = int (live_sessions p)"
  using assms sessions_counted [OF assms(1)] by (simp add: client_num_def signed_of_nat signed_take_bit_int_eq_self)

lemma stat_exchange:
  assumes r: "at_rest s" and "parse_line l (request s) = (True, \<lparr>command = ''STAT'', body = b\<rparr>)"
    and "verified s" and "peer_ok e" and a: "control_addr e = Inr addr"
  shows "\<exists>t. execute (ask_with e l) s = Some t \<and> at_rest t \<and> account t = account s \<and> acceptor t = acceptor s \<and>
     next_op t = Suc (next_op s) \<and> sent t = sent s @ [stat_text e addr s]"
proof -
  let ?r = "\<lparr>command = ''STAT'', body = b\<rparr>"
  let ?x = "created StatOp (listening ?r s)"
  have "control_addr (brings l e) = Inr addr" using a by (simp add: brings_def)
  moreover have "stat_text (brings l e) addr ?x = stat_text e addr s" by (simp add: stat_text_def brings_def)
  ultimately have op: "do_operation (brings l e) (next_op s) ?x = Inr (enqueue (stat_text e addr s) NoToken ?x)"
    by (simp add: do_operation_def plain_operation [OF r] stat_op_def reply_eq)
  have c: "served_by s ?r = Some StatOp" using assms(3) by (simp add: served_by_def registrations_def)
  from reply_exchange [OF r assms(2,4) c _ op] show ?thesis by simp
qed

end
