(* ===== verification/Session_Faults.thy ===== *)
theory Session_Faults
  imports Session_End
begin

text \<open>
  Where the end of a session goes wrong: an error of the read that drops the session under
  its own handlers, a final reply that cannot be written and leaves the session waiting for
  ever, and a transfer that takes the data socket from another.
\<close>

subsection \<open>An error of the read\<close>

lemma read_error_drops:
  assumes inv: "op_inv n0 s" "in_service s" and "OnRead \<in> set (pending s)" "ec_of e \<noteq> Success"
    and "ec_of e = Eof \<Longrightarrow> active_op_num s = 0"
  shows "\<exists>t. complete e OnRead s = Inr t \<and> destroyed t \<and> pending t = remove1 OnRead (pending s)"
proof -
  let ?s = "s\<lparr>pending := remove1 OnRead (pending s)\<rparr>"
  from inv(2) obtain r k i where l: "lined r k i s" "r + k = 1" by (rule in_serviceE) blast
  have "0 < own s OnRead" using assms(3) by (intro own_pos) simp_all
  then have "r = 1" "k = 0" using l by (auto simp: lined_def)
  then have "lined 0 0 i ?s" using l own_taken [of OnRead s] by (auto simp: lined_def fifo_def)
  then have no: "\<not> (\<exists>h \<in> set (pending ?s). owns_session h)" using owner_exists [of 0 0 i ?s] by simp
  obtain u where u: "on_read e ?s = Inr u" "u = ?s \<or> u = close ?s"
    using assms(4,5) by (cases "ec_of e") (simp_all add: on_read_def Let_def close_def)
  then have "pending (release e u) = pending ?s" by (auto simp: close_def)
  moreover have "\<not> destroyed s" using l by (simp add: lined_def)
  ultimately show ?thesis
    using u(1) no by (simp add: complete_def handler_body_def drop_session_def)
qed

lemma idle_wait_pending: "in_service s \<Longrightarrow> \<not> stoped s \<Longrightarrow> OnIdle \<in> set (pending s)"
  using own_zero [of OnIdle s] by (auto simp: in_service_def lined_def)

subsection \<open>A reply that cannot be written\<close>

text \<open>
  Closed and with nothing to do, but waiting on a timer that nobody cancels: such a session
  is never destroyed.
\<close>

definition stranded :: "'w sess \<Rightarrow> bool" where
  "stranded s \<longleftrightarrow> stoped s \<and> \<not> destroyed s \<and> operators s = [] \<and> \<not> keep_cancelled s \<and>
     OnKeepAlive \<in> set (pending s) \<and> set (pending s) \<subseteq> {OnKeepAlive, OnIdle}"

lemma stranded_completion:
  assumes "stranded s" and "deliverable h s" and "complete e h s = Inr t"
  shows "stranded t"
proof -
  have h: "h = OnIdle" using assms(1,2) by (auto simp: stranded_def deliverable_def)
  have keep: "OnKeepAlive \<in> set (remove1 OnIdle (pending s))" using assms(1) by (simp add: stranded_def)
  then have "\<exists>x \<in> set (remove1 OnIdle (pending s)). owns_session x" by (intro bexI [of _ OnKeepAlive]) simp_all
  with assms have "t = s\<lparr>pending := remove1 OnIdle (pending s)\<rparr>"
    by (simp add: h complete_def handler_body_def on_idle_def stranded_def calm_release drop_session_def)
  with assms(1) keep show ?thesis using set_remove1_subset [of OnIdle "pending s"] by (auto simp: stranded_def)
qed

lemma stranded_world: "stranded s \<Longrightarrow> stranded (s\<lparr>world := w\<rparr>)"
  by (simp add: stranded_def)

interpretation stranding: machine_invariant stranded "sess_step E" stranded
  by unfold_locales (auto elim!: sess_stepE intro: stranded_completion stranded_world)

lemma failed_write_strands:
  assumes inv: "op_inv 0 s" "in_service s" "clauses s" "few_ops s"
    and s: "OnKeepAlive \<in> set (pending s)" "operators s = []" "message_queue s \<noteq> []" and e: "ec_of e \<noteq> Success"
  shows "\<exists>t. complete e OnWrite s = Inr t \<and> stranded t"
proof -
  have "stoped s" "\<not> keep_cancelled s" using inv(3,4) s(1,3) by (auto simp: clauses_def held_def calm_def)
  from inv(2) obtain r k i where l: "lined r k i s" "writing s" "r + k = 1" by (rule in_serviceE) blast
  have "0 < own s OnKeepAlive" using s(1) by (intro own_pos) simp_all
  then have "own s OnRead = 0" using l by (auto simp: lined_def)
  then have r: "OnRead \<notin> set (pending s)" using own_zero [of OnRead s] by simp
  have w: "own s OnWrite = 1" using l(2) s(3) by (simp add: writing_def)
  let ?s = "s\<lparr>pending := remove1 OnWrite (pending s)\<rparr>"
  have "own ?s OnWrite = 0" using w own_taken [of OnWrite s] by simp
  then have w': "OnWrite \<notin> set (remove1 OnWrite (pending s))" using own_zero [of OnWrite ?s] by simp
  have "handler_ref h = None" if "h \<in> set (pending s)" for h
    using live_not_calm [OF inv(1) that] s(2) that inv(1) by (cases h) (auto simp: op_inv_def sending_ok_def receiving_ok_def listing_ok_def)
  then have "set (remove1 OnWrite (pending s)) \<subseteq> {OnKeepAlive, OnIdle}"
    using r w' no_banner [OF inv(2)] set_remove1_subset [of OnWrite "pending s"]
    by (intro subsetI, rename_tac h, case_tac h) force+
  moreover have "OnKeepAlive \<in> set (remove1 OnWrite (pending s))" using s(1) by simp
  moreover have "\<exists>x \<in> set (remove1 OnWrite (pending s)). owns_session x"
    using s(1) by (intro bexI [of _ OnKeepAlive]) simp_all
  moreover have "\<not> destroyed s" using l(1) by (simp add: lined_def)
  ultimately show ?thesis
    using s(2) e \<open>stoped s\<close> \<open>\<not> keep_cancelled s\<close>
    by (simp add: complete_def handler_body_def on_write_def calm_release drop_session_def stranded_def)
qed

subsection \<open>A data socket that has gone\<close>

lemma no_data_socket_crash:
  assumes "\<not> destroyed s" and "message_queue s = (b, m) # ms" and "m = SendToken i \<or> m = RecvToken i \<or> m = ListToken i r"
    and "data_socket s = None" and "ec_of e = Success"
  shows "complete e OnWrite s = Inl NullDeref"
  using assms
  by (auto simp: complete_def handler_body_def on_write_def run_token_def do_send_file_def do_recv_file_def list_send_def)

end
