(* ===== verification/Transfer_Faults.thy ===== *)
theory Transfer_Faults
  imports Session_Faults Transfer_Runs Login
begin

text \<open>
  Two transfers at a time: the data socket belongs to the session, and the end of one
  transfer takes it away from the other.
\<close>

lemma owner_pending:
  assumes "in_service s" and "handler_ref h = Some j"
  shows "\<exists>x \<in> set (remove1 h (pending s)). owns_session x"
proof -
  from assms(1) obtain r k i where "lined r k i s" "r + k = 1" by (rule in_serviceE) blast
  then obtain x where x: "x \<in> set (pending s)" "owns_session x" using owner_exists [of r k i s] by auto
  then have "x \<noteq> h" using assms(2) by (auto simp: owns_iff)
  with x show ?thesis by (auto intro!: bexI [of _ x])
qed

lemma write_pending: "in_service s \<Longrightarrow> message_queue s \<noteq> [] \<Longrightarrow> OnWrite \<in> set (pending s)"
  using own_zero [of OnWrite s] by (auto simp: in_service_def writing_def)

lemma finished_transfer_crashes:
  assumes srv: "in_service s" and c: "can_send j f s" and e: "ec_of e = Success" "sendfile_res e = SfBytes n"
    and last: "left_to_send f = slice_bytes (slice_size (cfg e)) n f"
    and q: "message_queue s = (b, m) # ms" "m = SendToken i \<or> m = RecvToken i \<or> m = ListToken i r"
  shows "\<exists>t. complete e (OnSendReady j) s = Inr t \<and> \<not> destroyed t \<and> deliverable OnWrite t \<and>
     (\<forall>e'. ec_of e' = Success \<longrightarrow> complete e' OnWrite t = Inl NullDeref)"
proof -
  let ?s = "s\<lparr>pending := remove1 (OnSendReady j) (pending s)\<rparr>"
  let ?u = "clear_data_socket (enqueue (get_code_string transfer_complete) NoToken
      (update_op j (Sending (advanced (slice_size (cfg e)) n f)) ?s))"
  have nd: "\<not> destroyed s" using srv by (auto simp: in_service_def lined_def)
  have "can_send j f ?s" using c by (simp add: can_send_def lookup_op_def)
  from slice_sent [OF this e, of "slice_size (cfg e)"] last
  have b: "handler_body e (OnSendReady j) ?s = Inr ?u" by (simp add: handler_body_def Let_def)
  have p: "pending ?u = remove1 (OnSendReady j) (pending s)" using q(1) by (simp add: clear_data_socket_def enqueue_def)
  then have "\<exists>x \<in> set (pending (release e ?u)). owns_session x" using owner_pending [OF srv, of "OnSendReady j" j] by simp
  then have k: "drop_session (release e ?u) = release e ?u" by (simp add: drop_session_def)
  let ?t = "release e ?u"
  have "complete e (OnSendReady j) s = Inr ?t" using b k nd by (simp add: complete_def)
  moreover have d: "\<not> destroyed ?t" using nd by (simp add: clear_data_socket_def)
  moreover have "deliverable OnWrite ?t"
    using write_pending [OF srv] q(1) p by (simp add: deliverable_def)
  moreover have "complete e' OnWrite ?t = Inl NullDeref" if "ec_of e' = Success" for e'
  proof (rule no_data_socket_crash [OF d _ q(2) _ that])
    show "message_queue ?t = (b, m) # (ms @ [(get_code_string transfer_complete, NoToken)])"
      using q(1) by (simp add: clear_data_socket_def)
    show "data_socket ?t = None" by (rule release_no_data) (simp add: clear_data_socket_def)
  qed
  ultimately show ?thesis by blast
qed

end
