(* ===== verification/Listing_Session.thy ===== *)
theory Listing_Session
  imports Transfer_Sessions
begin

text \<open>
  A whole listing, completion by completion, from a session at rest to a session at rest:
  the request, the accepted data connection, for which the listing is made, the 150 reply,
  the write of the listing to the data socket, and the 226 reply, which is sent whether or
  not that write went well.
\<close>

lemma list_file_good [simp]: "list_file (good e) p w = list_file e p w"
proof -
  have "list_entry (good e) it = list_entry e it" for it by (simp add: list_entry_def)
  then have "list_entries (good e) its out = list_entries e its out" for its out
    by (induction its arbitrary: out) simp_all
  then show ?thesis by (simp add: list_file_def)
qed

lemma list_requested:
  assumes r: "at_rest s" and "parse_line l (request s) = (True, q)" and c: "served_by s q = Some ListOp"
    and a: "acceptor s \<noteq> AccClosed"
  shows "\<exists>t. complete (brings l e) OnRead s = Inr t \<and> deliverable OnRead s \<and>
     in_transfer (next_op s) (Plain ListOp) [] [OnAccept (next_op s)] None t \<and>
     same_account (s\<lparr>next_op := Suc (next_op s)\<rparr>) t \<and> sent t = sent s \<and> submitted t = submitted s"
proof -
  let ?i = "next_op s" and ?u = "created ListOp (listening q s)"
  note rest = rest_facts [OF r]
  have u: "operators ?u = [(?i, Plain ListOp)]" "message_queue ?u = []" "pending ?u = [OnIdle]" "data_socket ?u = None"
    "\<not> stoped ?u" "\<not> destroyed ?u" "active_op_num ?u = 1" "buf ?u = []" "?i < next_op ?u"
    using rest by (simp_all add: created_def basic_op_ctor_def Let_def)
  have k: "construct (brings l e) ListOp (listening q s) = Inr (?i, ?u)" by (simp add: construct_plain)
  have "update_op ?i (Plain ListOp) ?u = ?u" using u(1) by (simp add: update_op_def)
  moreover have "acceptor ?u = acceptor s" by (simp add: created_def basic_op_ctor_def Let_def)
  ultimately have "do_operation (brings l e) ?i ?u = Inr (add_pending (OnAccept ?i) (update_op ?i (Plain ListOp) ?u))"
    using u(1) a by (simp add: do_operation_def lookup_op_def list_op_def fetch_passive_connection_def check_data_port_def)
  from transfer_requested [OF r assms(2) c k u this] obtain t where t:
    "complete (brings l e) OnRead s = Inr t" "deliverable OnRead s" "in_transfer ?i (Plain ListOp) [] [OnAccept ?i] None t"
    "account t = account ?u" "next_op t = next_op ?u" "listings t = listings ?u" "sent t = sent ?u" "submitted t = submitted ?u"
    by (auto simp: listing_ok_def)
  then show ?thesis
    by (intro exI [of _ t]) (simp add: same_account_def created_def basic_op_ctor_def Let_def account_def listening_def expires_never_def)
qed

text \<open>The listing is made of the directory and the file system at the time of the accept.\<close>

lemma list_accepted:
  assumes t: "in_transfer i (Plain ListOp) [] [OnAccept i] None s" and "nonblock_ok e"
    and "list_file e (current_path s) (world s) = Inr response"
  shows "\<exists>t. complete (good e) (OnAccept i) s = Inr t \<and> deliverable (OnAccept i) s \<and>
     in_transfer i (Plain ListOp) [(get_code_string data_conn, ListToken i response)] [OnWrite] (Some SockOpen) t \<and> same_account s t \<and>
     acceptor t = AccClosed \<and> sent t = sent s \<and> submitted t = submitted s @ [get_code_string data_conn]"
proof (rule transfer_accepted_in [OF t])
  have "nonblock_ok (good e)" using assms(2) by (simp add: good_def)
  moreover have "lookup_op i (set_data_socket (s\<lparr>pending := remove1 (OnAccept i) (pending s), acceptor := AccClosed\<rparr>)) = Some (Plain ListOp)"
    using transfer_lookup [OF t] by (simp add: lookup_op_def set_data_socket_def)
  ultimately show "handler_body (good e) (OnAccept i) (s\<lparr>pending := remove1 (OnAccept i) (pending s)\<rparr>) =
      Inr (enqueue (get_code_string data_conn) (ListToken i response)
        (set_data_socket (s\<lparr>pending := remove1 (OnAccept i) (pending s), acceptor := AccClosed\<rparr>)))"
    using assms(3)
    by (simp add: handler_body_def on_accept_def Let_def handle_data_connection_def write_message_eq)
       (simp add: set_data_socket_def)
qed (simp_all add: listing_ok_def)

lemma list_started:
  assumes "in_transfer i (Plain ListOp) [(b, ListToken i response)] [OnWrite] (Some SockOpen) s"
  shows "\<exists>t. complete (good e) OnWrite s = Inr t \<and> deliverable OnWrite s \<and>
     in_transfer i (Plain ListOp) [] [OnListWritten i response] (Some SockOpen) t \<and> same_account s t \<and>
     acceptor t = acceptor s \<and> sent t = sent s @ [b] \<and> submitted t = submitted s"
  by (rule transfer_started_in [OF assms]) (simp_all add: run_token_def list_send_def listing_ok_def)

lemma list_ended:
  assumes t: "in_transfer i (Plain ListOp) [] [OnListWritten i response] (Some SockOpen) s"
  shows "\<exists>t. complete z (OnListWritten i response) s = Inr t \<and> deliverable (OnListWritten i response) s \<and>
     replying (get_code_string transfer_complete) t \<and> account t = account s \<and> next_op t = next_op s \<and>
     listings t = listings s @ (if ec_of z = Success then [response] else []) \<and>
     acceptor t = acceptor s \<and> sent t = sent s"
proof -
  let ?h = "OnListWritten i response"
  let ?v = "s\<lparr>pending := remove1 ?h (pending s), listings := listings s @ (if ec_of z = Success then [response] else [])\<rparr>"
  have "\<not> destroyed s" and v: "in_transfer i (Plain ListOp) [] [] (Some SockOpen) ?v" using t by (simp_all add: in_transfer_def)
  moreover have "handler_body z ?h (s\<lparr>pending := remove1 ?h (pending s)\<rparr>) =
      Inr (clear_data_socket (enqueue (get_code_string transfer_complete) NoToken ?v))"
    by (simp add: handler_body_def list_written_def write_message_eq Let_def)
  ultimately obtain t where "complete z ?h s = Inr t" "replying (get_code_string transfer_complete) t" "same_account ?v t"
    "acceptor t = acceptor ?v" "sent t = sent ?v"
    using transfer_ends_in by blast
  with transfer_deliverable [OF t] show ?thesis by (simp add: same_account_def account_def)
qed

definition listing_session :: "'w env \<Rightarrow> string \<Rightarrow> opid \<Rightarrow> string \<Rightarrow> 'w env \<Rightarrow> ('w env \<times> handler) list" where
  "listing_session e l i response z =
     (brings l e, OnRead) # connect_with e i @ [(z, OnListWritten i response), (good e, OnWrite)]"

lemma listing_complete:
  assumes r: "at_rest s" and "parse_line l (request s) = (True, q)" and "served_by s q = Some ListOp"
    and "acceptor s \<noteq> AccClosed" and c: "connection_ok e" and f: "list_file e (current_path s) (world s) = Inr response"
  shows "\<exists>t. execute (listing_session e l (next_op s) response z) s = Some t \<and> at_rest t \<and> account t = account s \<and>
     acceptor t = AccClosed \<and> next_op t = Suc (next_op s) \<and>
     listings t = listings s @ (if ec_of z = Success then [response] else []) \<and>
     sent t = sent s @ [get_code_string data_conn, get_code_string transfer_complete]"
proof -
  let ?i = "next_op s"
  have ok: "nonblock_ok e" "peer_ok e" using c by (simp_all add: connection_ok_def)
  obtain a where a: "complete (brings l e) OnRead s = Inr a" "deliverable OnRead s"
    "in_transfer ?i (Plain ListOp) [] [OnAccept ?i] None a" "same_account (s\<lparr>next_op := Suc ?i\<rparr>) a" "sent a = sent s"
    using list_requested [OF assms(1-4)] by blast
  have "current_path a = current_path s" "world a = world s" using a(4) by (simp_all add: same_account_def account_def)
  then obtain b where b: "complete (good e) (OnAccept ?i) a = Inr b" "deliverable (OnAccept ?i) a"
    "in_transfer ?i (Plain ListOp) [(get_code_string data_conn, ListToken ?i response)] [OnWrite] (Some SockOpen) b"
    "same_account a b" "acceptor b = AccClosed" "sent b = sent a"
    using list_accepted [OF a(3) ok(1), of response] f by auto
  obtain d where d: "complete (good e) OnWrite b = Inr d" "deliverable OnWrite b"
    "in_transfer ?i (Plain ListOp) [] [OnListWritten ?i response] (Some SockOpen) d" "same_account b d" "acceptor d = acceptor b"
    "sent d = sent b @ [get_code_string data_conn]"
    using list_started [OF b(3)] by blast
  obtain k where k: "complete z (OnListWritten ?i response) d = Inr k" "deliverable (OnListWritten ?i response) d"
    "replying (get_code_string transfer_complete) k" "account k = account d" "next_op k = next_op d"
    "listings k = listings d @ (if ec_of z = Success then [response] else [])" "acceptor k = acceptor d" "sent k = sent d"
    using list_ended [OF d(3), of z] by blast
  obtain t where t: "execute [(good e, OnWrite)] k = Some t" "at_rest t" "same_account k t" "acceptor t = acceptor k"
    "sent t = sent k @ [get_code_string transfer_complete]"
    using replied_execute [OF k(3) ok(2)] by blast
  have "execute (listing_session e l ?i response z) s = Some t"
    unfolding listing_session_def connect_with_def using a(1,2) b(1,2) d(1,2) k(1,2) t(1) by simp
  moreover have "account t = account s" "next_op t = Suc ?i" "listings t = listings s @ (if ec_of z = Success then [response] else [])"
    using a(4) b(4) d(4) k(4-6) t(3) by (simp_all add: same_account_def account_def)
  ultimately show ?thesis using a(5) b(5,6) d(5,6) k(7,8) t(2,4,5) by simp
qed

end
