(* ===== verification/Sample_Run.thy ===== *)
theory Sample_Run
  imports Process_Sessions Transfer_Faults Listing_Session
begin

text \<open>
  A concrete environment and file system, on which whole sessions are executed. The runs
  show that the hypotheses of the properties can hold: each is a reachable state.
\<close>

subsection \<open>A small file system\<close>

text \<open>A path is bound to \<open>Some\<close> content for a regular file and to \<open>None\<close> for a directory.\<close>

type_synonym tree = "(path \<times> string option) list"

definition tree_os :: "tree os" where
  "tree_os = \<lparr>
     os_exists = (\<lambda>w p. Inr (map_of w p \<noteq> None)),
     os_is_directory = (\<lambda>w p. Inr (map_of w p = Some None)),
     os_is_regular_file = (\<lambda>w p. Inr (map_of w p \<noteq> None \<and> map_of w p \<noteq> Some None)),
     os_canonical = (\<lambda>w p. Inr p),
     os_file_size = (\<lambda>w p. case map_of w p of Some (Some c) \<Rightarrow> Inr (of_nat (length c)) | _ \<Rightarrow> Inl FsException),
     os_create_directory = (\<lambda>w p. Inr ((p, None) # w)),
     os_open_read = (\<lambda>w p. case map_of w p of Some (Some c) \<Rightarrow> 5 | _ \<Rightarrow> - 1),
     os_open_write = (\<lambda>w p. (6, (p, Some []) # w)),
     os_pipe = (\<lambda>w. Some (7, 8)),
     os_directory_iterator = (\<lambda>w p. Inr []),
     os_localtime = (\<lambda>t. \<lparr>tm_mon = 0, tm_mday = 1, tm_hour = 0, tm_min = 0\<rparr>),
     os_gmtime = (\<lambda>t. \<lparr>tm_mon = 0, tm_mday = 1, tm_hour = 0, tm_min = 0\<rparr>)\<rparr>"

definition sample_config :: config where
  "sample_config = declared_defaults\<lparr>anonymous_enable := True, write_enable := True\<rparr>"

text \<open>An environment in which every call succeeds and the time is zero.\<close>

definition calm_env :: "tree env" where
  "calm_env = \<lparr>
     cfg = sample_config, sys = tree_os, now = 0, clients = 1, ec_of = Success, chunk = [],
     read_n = 0, peer_ok = True, control_addr = Inr ''10.0.0.1'', acc_open_ok = True,
     acc_option_ok = True, acc_bind_ok = True, acc_listen_ok = True, acc_port = 5001,
     nonblock_ok = True, nodelay_ok = True, sendfile_res = SfBytes 1000000,
     available = Inr 0, splices = []\<rparr>"

text \<open>The completion of a read that brings one line.\<close>

definition line_env :: "string \<Rightarrow> tree env" where
  "line_env l = calm_env\<lparr>chunk := l @ crlf, read_n := length (l @ crlf)\<rparr>"

definition sample_tree :: tree where
  "sample_tree = [(''/srv'', None), (''/srv/a'', Some ''hello'')]"

definition sample_start :: "tree sess" where
  "sample_start = start sample_config (new_context ''/srv'' 0 ''10.0.0.9:4000'' sample_tree)"

lemma sample_started: "started 0 sample_start"
  unfolding started_def sample_start_def new_session_def by force

subsection \<open>Runs are reachable\<close>

lemma run_steps:
  "\<forall>x \<in> set es. E (fst x) \<Longrightarrow> run es s = Inr t \<Longrightarrow> (sess_step E)\<^sup>*\<^sup>* s t"
proof (induction es s rule: run.induct)
  case (2 e h es s)
  show ?case
  proof (cases "deliverable h s")
    case True
    with 2 obtain u where u: "complete e h s = Inr u" "run es u = Inr t"
      by (auto simp: sbind_Inr_iff)
    with 2 True have "(sess_step E)\<^sup>*\<^sup>* u t" by auto
    moreover have "sess_step E s u" using 2 True u by (auto intro: sess_step.completion)
    ultimately show ?thesis by simp
  qed (use 2 in auto)
qed simp

lemma run_reachable:
  assumes "run es sample_start = Inr t" and "\<forall>x \<in> set es. E (fst x)"
  shows "reachable E 0 t"
  using sample_started run_steps [OF assms(2,1)] by (auto simp: reachable_def)

text \<open>A state given by a run, for use where the run does not fail.\<close>

definition after :: "(tree env \<times> handler) list \<Rightarrow> tree sess" where
  "after es = (case run es sample_start of Inl c \<Rightarrow> sample_start | Inr t \<Rightarrow> t)"

lemma after_reachable: "\<forall>x \<in> set es. E (fst x) \<Longrightarrow> reachable E 0 (after es)"
proof (cases "run es sample_start")
  case (Inl c)
  then show ?thesis using sample_started by (auto simp: after_def reachable_def)
next
  case (Inr t)
  assume "\<forall>x \<in> set es. E (fst x)"
  with run_reachable [OF Inr, of E] Inr show ?thesis by (simp add: after_def)
qed

definition anyenv :: "tree env \<Rightarrow> bool" where
  "anyenv e = True"

lemma after_any: "reachable anyenv 0 (after es)"
  by (rule after_reachable) (simp add: anyenv_def)

subsection \<open>The runs\<close>

definition banner_run :: "(tree env \<times> handler) list" where
  "banner_run = [(calm_env, OnBanner (get_code_string_info welcome_ready ''Welcome to ftpd.''))]"

text \<open>One request and the completed write of its reply.\<close>

definition ask :: "string \<Rightarrow> (tree env \<times> handler) list" where
  "ask l = [(line_env l, OnRead), (calm_env, OnWrite)]"

definition login_run :: "(tree env \<times> handler) list" where
  "login_run = banner_run @ ask ''user anonymous'' @ ask ''pass x''"

definition transfer_run :: "(tree env \<times> handler) list" where
  "transfer_run = login_run @ ask ''pasv'' @ [(line_env ''retr a'', OnRead), (calm_env, OnAccept 3)]"

definition download_run :: "(tree env \<times> handler) list" where
  "download_run = transfer_run @ [(calm_env, OnWrite)]"

definition upload_run :: "(tree env \<times> handler) list" where
  "upload_run = login_run @ ask ''pasv'' @
     [(line_env ''stor b'', OnRead), (calm_env, OnAccept 3), (calm_env, OnWrite)]"

definition failing_env :: "ec \<Rightarrow> tree env" where
  "failing_env x = calm_env\<lparr>ec_of := x\<rparr>"

text \<open>The client goes away during the download, whose last slice is then sent.\<close>

definition deserted_run :: "(tree env \<times> handler) list" where
  "deserted_run = download_run @ [(failing_env Eof, OnRead), (calm_env, OnSendReady 3)]"

text \<open>The client goes away during the download, whose data socket then fails.\<close>

definition lost_run :: "(tree env \<times> handler) list" where
  "lost_run = download_run @ [(failing_env Eof, OnRead), (failing_env OtherError, OnSendReady 3)]"

text \<open>A second download is accepted while the first waits for its socket.\<close>

definition clash_run :: "(tree env \<times> handler) list" where
  "clash_run = download_run @ ask ''pasv'' @ [(line_env ''retr a'', OnRead), (calm_env, OnAccept 5)]"

text \<open>The acceptor is open and nothing else is under way.\<close>

definition passive_run :: "(tree env \<times> handler) list" where
  "passive_run = login_run @ ask ''pasv''"

text \<open>A directory is made.\<close>

definition mkd_run :: "(tree env \<times> handler) list" where
  "mkd_run = login_run @ ask ''mkd d''"

lemmas runs = banner_run_def ask_def login_run_def transfer_run_def download_run_def upload_run_def

text \<open>What the witnesses look at in a state.\<close>

definition view :: "'w sess \<Rightarrow>
    (bool \<times> bool \<times> expiry \<times> handler list \<times> (opid \<times> operator) list) \<times>
    (data_sock option \<times> opid \<times> bool \<times> string \<times> acceptor) \<times> (nat \<times> nat \<times> int list)" where
  "view s = ((stoped s, destroyed s, timer_expiry s, pending s, operators s),
     (data_socket s, next_op s, verified s, user s, acceptor s),
     (length (message_queue s), length (dropped s), open_fds s))"

lemma login_view: "view (after login_run) =
   ((False, False, At 20000000000, [OnIdle, OnRead], []),
    (None, 2, True, ''anonymous'', AccClosed), (0, 0, []))"
  by code_simp

lemma transfer_view: "view (after transfer_run) =
   ((False, False, Never, [OnIdle, OnRead, OnWrite],
     [(3, Sending \<lparr>sf_fd = 5, sf_name = ''/srv/a'', sf_size = 5, sf_offset = 0, sf_token = True\<rparr>)]),
    (Some SockOpen, 4, True, ''anonymous'', AccClosed), (1, 0, [5]))"
  by code_simp

lemma download_view: "view (after download_run) =
   ((False, False, Never, [OnIdle, OnRead, OnSendReady 3],
     [(3, Sending \<lparr>sf_fd = 5, sf_name = ''/srv/a'', sf_size = 5, sf_offset = 0, sf_token = True\<rparr>)]),
    (Some SockOpen, 4, True, ''anonymous'', AccClosed), (0, 0, [5]))"
  by code_simp

lemma upload_view: "view (after upload_run) =
   ((False, False, Never, [OnIdle, OnRead, OnRecvReady 3],
     [(3, Receiving \<lparr>rf_fd = 6, rf_name = ''/srv/b'', rf_pipe = (7, 8), rf_token = True,
                    rf_in_pipe = [], rf_written = []\<rparr>)]),
    (Some SockOpen, 4, True, ''anonymous'', AccClosed), (0, 0, [8, 7, 6]))"
  by code_simp

lemma banner_view: "view (after banner_run) =
   ((False, False, At 20000000000, [OnRead, OnIdle], []), (None, 0, False, [], AccClosed), (0, 0, []))"
  by code_simp

lemma deserted_view: "view (after deserted_run) =
   ((True, False, Never, [OnIdle, OnKeepAlive, OnWrite], []), (None, 4, True, ''anonymous'', AccClosed), (1, 0, []))"
  by code_simp

lemma lost_view: "view (after lost_run) =
   ((True, False, Never, [OnIdle, OnKeepAlive], []), (Some SockClosed, 4, True, ''anonymous'', AccClosed), (0, 0, []))"
  by code_simp

lemma lost_cancelled: "keep_cancelled (after lost_run)"
  by code_simp

lemma clash_view: "view (after clash_run) =
   ((False, False, Never, [OnIdle, OnSendReady 3, OnRead, OnWrite],
     [(3, Sending \<lparr>sf_fd = 5, sf_name = ''/srv/a'', sf_size = 5, sf_offset = 0, sf_token = True\<rparr>),
      (5, Sending \<lparr>sf_fd = 5, sf_name = ''/srv/a'', sf_size = 5, sf_offset = 0, sf_token = True\<rparr>)]),
    (Some SockOpen, 6, True, ''anonymous'', AccClosed), (1, 0, [5, 5]))"
  by code_simp

lemma clash_tokens: "map snd (message_queue (after clash_run)) = [SendToken 5]"
  by code_simp

lemma passive_view: "view (after passive_run) =
   ((False, False, At 20000000000, [OnIdle, OnRead], []),
    (None, 3, True, ''anonymous'', AccListening 5001), (0, 0, []))"
  by code_simp

lemma passive_more: "(active_op_num (after passive_run), buf (after passive_run), world (after passive_run),
    current_path (after passive_run), is_anonymous (after passive_run)) = (0, [], sample_tree, ''/srv'', True)"
  by code_simp

lemmas login_facts = login_view [unfolded view_def Pair_inject]
lemmas transfer_facts = transfer_view [unfolded view_def Pair_inject]
lemmas download_facts = download_view [unfolded view_def Pair_inject]
lemmas upload_facts = upload_view [unfolded view_def Pair_inject]
lemmas banner_facts = banner_view [unfolded view_def Pair_inject]

lemmas deserted_facts = deserted_view [unfolded view_def Pair_inject]
lemmas lost_facts = lost_view [unfolded view_def Pair_inject] lost_cancelled
lemmas clash_facts = clash_view [unfolded view_def Pair_inject]
lemmas passive_facts = passive_view [unfolded view_def Pair_inject] passive_more [unfolded Pair_inject]

lemma passive_rest: "at_rest (after passive_run)"
  using passive_facts by (simp add: at_rest_def add_mset_commute)

lemma calm_connection: "connection_ok calm_env" "listens calm_env ''10.0.0.1'' 5001"
  by (simp_all add: connection_ok_def listens_def calm_env_def)

lemma calm_takes: "takes_bytes calm_env"
  by (simp add: takes_bytes_def calm_env_def)

text \<open>The environments of the runs meet the assumptions on environments.\<close>

lemma tree_proper: "sys e = tree_os \<Longrightarrow> proper_fds e"
  by (auto simp: proper_fds_def tree_os_def split: option.splits)

lemma env_simps [simp]:
  "sys calm_env = tree_os" "sys (line_env l) = tree_os" "cfg calm_env = sample_config"
  "cfg (line_env l) = sample_config" "splices calm_env = []" "splices (line_env l) = []"
  by (simp_all add: calm_env_def line_env_def)

lemma runs_proper: "reachable proper_fds 0 (after download_run)" "reachable proper_fds 0 (after upload_run)"
  by (rule after_reachable, simp add: runs tree_proper)+

lemma runs_config: "reachable (\<lambda>e. cfg e = sample_config) 0 (after login_run)"
  "reachable (\<lambda>e. cfg e = sample_config) 0 (after banner_run)"
  by (rule after_reachable, simp add: runs)+

lemma runs_draining: "reachable draining 0 (after upload_run)"
  by (rule after_reachable) (simp add: runs draining_def all_drain_def)

lemma sample_calls: "proper_calls (line_env l)" "proper_calls calm_env"
  by (auto simp: proper_calls_def line_env_def calm_env_def tree_os_def split: option.split)

text \<open>A directory with one regular file.\<close>

definition listing_env :: "tree env" where
  "listing_env = calm_env\<lparr>sys := tree_os\<lparr>os_directory_iterator := (\<lambda>w p. Inr
     [\<lparr>de_status = Inr (ft_regular, 420), de_links = Inr 1, de_size = Inr 5, de_mtime = 0, de_name = ''a''\<rparr>])\<rparr>\<rparr>"

subsection \<open>A process\<close>

lemma launch_sample: "\<exists>p :: tree process. launched global_config 2 p \<and> assigned (srv p) = []"
proof -
  obtain m s where s: "main_ftpd [''ftpd'', ''conf''] (\<lambda>_. NotOpen) (\<lambda>_. True) 2 = Inr (Some (m, global_config, s :: tree server))"
    "assigned s = []"
    by (simp add: main_ftpd_def server_start_def init_def new_server_def do_accept_def Let_def)
  have "launched global_config 2 \<lparr>srv = s, files = sample_tree, stuck = {}, ended = None\<rparr>"
    unfolding launched_def using s(1) by auto
  with s(2) show ?thesis by fastforce
qed

lemma launched_serving: "launched c hw p \<Longrightarrow> \<exists>k. accepting (srv p) = Some k \<and> works (srv p) \<noteq> 0 \<and> \<not> srv_stoped (srv p)"
  by (auto simp: launched_def main_ftpd_def server_start_def sbind_Inr_iff new_server_def do_accept_def Let_def
      dest!: sym [of _ "srv p"] split: if_splits)

lemma admit_sample:
  assumes "launched c hw p" and "assigned (srv p) = []"
  shows "length (assigned (srv (admit c True (Inr peer) home n0 p))) = 1"
  using launched_serving [OF assms(1)] assms(2)
  by (auto simp: admit_def on_client_def new_session_def do_accept_def Let_def)

lemma admit_lost: "launched c hw p \<Longrightarrow> ended (admit c True (Inl x) home n0 p) = Some x"
  using launched_serving [of c hw p] by (auto simp: admit_def on_client_def new_session_def Let_def)

text \<open>The configuration file of the sample configuration.\<close>

definition sample_json :: json where
  "sample_json = \<lparr>json_contains = (\<lambda>k. k \<noteq> ''ftpd_banner''), json_string = (\<lambda>k. Inr []),
     json_int = (\<lambda>k. Inr (if k = ''max_idle_timeout'' then 20 else 10)),
     json_u16 = (\<lambda>k. Inr (if k = ''port'' then 10086 else if k = ''data_transfer_port'' then 10087 else 0)),
     json_bool = (\<lambda>k. Inr True)\<rparr>"

lemma sample_json_config: "init (Parsed sample_json) global_config = Inr sample_config"
  by (simp add: init_def set_field_def sample_json_def global_config_def sample_config_def declared_defaults_def)

lemma launch_configured:
  "\<exists>p :: tree process. launched sample_config 2 p \<and> assigned (srv p) = [] \<and> client_count (srv p) = 0 \<and> files p = sample_tree"
proof -
  obtain m s where s: "main_ftpd [''ftpd'', ''conf''] (\<lambda>_. Parsed sample_json) (\<lambda>_. True) 2 = Inr (Some (m, sample_config, s :: tree server))"
    "assigned s = []" "client_count s = 0"
    by (simp add: main_ftpd_def sample_json_config server_start_def new_server_def do_accept_def Let_def)
  have "launched sample_config 2 \<lparr>srv = s, files = sample_tree, stuck = {}, ended = None\<rparr>"
    unfolding launched_def using s(1) by auto
  with s(2,3) show ?thesis by fastforce
qed

text \<open>A client has connected and logged in.\<close>

lemma login_executes: "execute login_run sample_start = Some (after login_run)"
proof -
  have "map_option verified (execute login_run sample_start) = Some True" by code_simp
  then obtain t where "execute login_run sample_start = Some t" by auto
  with execute_run [OF this] show ?thesis by (simp add: after_def)
qed

lemma login_clients: "\<forall>(e, h) \<in> set login_run. cfg e = sample_config \<and> clients e = 1"
  by (simp add: runs line_env_def calm_env_def)

lemma logged_in_process:
  "\<exists>p0 p :: tree process. launched sample_config 2 p0 \<and> (process_step anyenv sample_config)\<^sup>*\<^sup>* p0 p \<and>
     serviceable 0 p \<and> session_at 0 p = after login_run \<and> client_count (srv p) = 1 \<and> live_sessions p = 1"
proof -
  obtain p0 :: "tree process" where p0: "launched sample_config 2 p0" "assigned (srv p0) = []" "client_count (srv p0) = 0"
    "files p0 = sample_tree"
    using launch_configured by blast
  let ?p = "admit sample_config True (Inr ''10.0.0.9:4000'') ''/srv'' 0 p0"
  obtain k where k: "accepting (srv p0) = Some k" "works (srv p0) \<noteq> 0" "\<not> srv_stoped (srv p0)"
    using launched_serving [OF p0(1)] by blast
  have step: "process_step anyenv sample_config p0 ?p"
    using p0(1) by (intro process_step.accept) (simp_all add: launched_def)
  have p: "assigned (srv ?p) = [(k, sample_start)]" "client_count (srv ?p) = 1" "files ?p = sample_tree" "ended ?p = None" "stuck ?p = {}"
    using k p0 by (simp_all add: admit_def on_client_def new_session_def do_accept_def inc_client_num_def sample_start_def launched_def Let_def)
  have "serviceable 0 ?p" "session_at 0 ?p = sample_start"
    using p by (simp_all add: serviceable_def session_at_def) (simp add: sample_start_def start_def new_context_def add_pending_def Let_def)
  moreover have "\<not> destroyed (after login_run)" using login_facts by simp
  moreover have "client_num 1 = 1" by (simp add: client_num_def)
  then have "\<forall>(e, h) \<in> set login_run. env_in anyenv sample_config ?p e"
    using login_clients p(2) by (auto simp: env_in_def anyenv_def)
  ultimately obtain q where q: "(process_step anyenv sample_config)\<^sup>*\<^sup>* ?p q" "session_at 0 q = after login_run"
    "serviceable 0 q" "beside 0 ?p q"
    using session_runs [of 0 ?p login_run "after login_run" anyenv sample_config] login_executes by (auto simp del: execute.simps)
  have "length (assigned (srv q)) = 1" "client_count (srv q) = 1" using q(4) p by (simp_all add: beside_def)
  moreover from this obtain wk x where x: "assigned (srv q) = [(wk, x)]"
    by (cases "assigned (srv q)") auto
  moreover have "\<not> destroyed x"
    using arg_cong [OF q(2), of destroyed] login_facts x by (simp add: session_at_def)
  ultimately have "live_sessions q = 1" "client_count (srv q) = 1" by (simp_all add: live_sessions_def)
  with p0(1) q step show ?thesis by (meson converse_rtranclp_into_rtranclp)
qed

lemma login_rest: "at_rest (after login_run)"
proof -
  have "(active_op_num (after login_run), buf (after login_run)) = (0, [])" by code_simp
  with login_facts show ?thesis by (simp add: at_rest_def add_mset_commute)
qed

text \<open>Two clients on one worker, the first of which uploads a file.\<close>

definition two_clients :: "tree process" where
  "two_clients = \<lparr>srv = \<lparr>works = 1, work_index = 3, srv_stoped = False, accepting = Some 0,
     assigned = [(0, after upload_run), (0, sample_start)], client_count = 2, gone = 0\<rparr>,
     files = sample_tree, stuck = {}, ended = None\<rparr>"

end
