(* ===== verification/Shared_Buffer.thy ===== *)
theory Shared_Buffer
  imports Ftpd_Prelude
begin

text \<open>
  The class \<^verbatim>\<open>SharedConstBuffer\<close> of \<^verbatim>\<open>session/code.h\<close>: a handle to bytes that all copies
  of it share and that the last one frees. A reply is put into the message queue as one
  handle and given to the control write as another, so that its bytes stay readable when the
  queue is emptied under the write. Elsewhere in the development a reply is its string.
\<close>

subsection \<open>The class\<close>

text \<open>
  The heap of the shared vectors, each with the number of its owners. A \<^verbatim>\<open>const_buffer\<close> is
  a pointer and a length.
\<close>

record heap =
  next_addr :: nat
  cells :: "nat \<Rightarrow> (string \<times> nat) option"

record shared_buffer =
  data_of :: "nat option"
  buffer_of :: "nat option \<times> nat"

definition empty_heap :: heap where
  "empty_heap = \<lparr>next_addr = 0, cells = (\<lambda>_. None)\<rparr>"

definition make_buffer :: "string \<Rightarrow> heap \<Rightarrow> shared_buffer \<times> heap" where
  "make_buffer d h =
     (let a = next_addr h
      in (\<lparr>data_of = Some a, buffer_of = (Some a, length d)\<rparr>,
          h\<lparr>next_addr := Suc a, cells := (cells h)(a := Some (d, 1))\<rparr>))"

definition no_buffer :: shared_buffer where
  "no_buffer = \<lparr>data_of = None, buffer_of = (None, 0)\<rparr>"

text \<open>The copy constructor and the destructor that the compiler generates from the two fields.\<close>

definition copy_buffer :: "shared_buffer \<Rightarrow> heap \<Rightarrow> shared_buffer \<times> heap" where
  "copy_buffer b h =
     (case data_of b of
        None \<Rightarrow> (b, h)
      | Some a \<Rightarrow> (b, h\<lparr>cells := (cells h)(a := map_option (\<lambda>(d, n). (d, n + 1)) (cells h a))\<rparr>))"

definition drop_buffer :: "shared_buffer \<Rightarrow> heap \<Rightarrow> heap" where
  "drop_buffer b h =
     (case data_of b of
        None \<Rightarrow> h
      | Some a \<Rightarrow>
          (case cells h a of
             None \<Rightarrow> h
           | Some (d, n) \<Rightarrow> h\<lparr>cells := (cells h)(a := if n = 1 then None else Some (d, n - 1))\<rparr>))"

definition buffer_count :: "shared_buffer \<Rightarrow> heap \<Rightarrow> nat" where
  "buffer_count b h = (case data_of b of None \<Rightarrow> 0 | Some a \<Rightarrow> (case cells h a of None \<Rightarrow> 0 | Some (d, n) \<Rightarrow> n))"

definition buffer_valid :: "shared_buffer \<Rightarrow> bool" where
  "buffer_valid b \<longleftrightarrow> data_of b \<noteq> None"

text \<open>
  What a write reads from \<^verbatim>\<open>begin()\<close> to \<^verbatim>\<open>end()\<close>, one \<^verbatim>\<open>const_buffer\<close>: \<open>None\<close> when its
  memory has been freed.
\<close>

definition read_buffer :: "shared_buffer \<Rightarrow> heap \<Rightarrow> string option" where
  "read_buffer b h =
     (case buffer_of b of
        (None, n) \<Rightarrow> Some []
      | (Some a, n) \<Rightarrow> map_option (\<lambda>(d, k). take n d) (cells h a))"

subsection \<open>The handles of a program\<close>

text \<open>
  The contract: whatever handles are made, copied and dropped, a live one reads the bytes it
  was made from. A program is a sequence of such operations on the handles that are alive.
\<close>

inductive buffer_step ::
  "heap \<times> (shared_buffer \<times> string) list \<Rightarrow> heap \<times> (shared_buffer \<times> string) list \<Rightarrow> bool" where
  make: "make_buffer d h = (b, h') \<Longrightarrow> buffer_step (h, bs) (h', (b, d) # bs)"
| copy: "(b, d) \<in> set bs \<Longrightarrow> copy_buffer b h = (b', h') \<Longrightarrow> buffer_step (h, bs) (h', (b', d) # bs)"
| drop: "drop_buffer b h = h' \<Longrightarrow> buffer_step (h, xs @ (b, d) # ys) (h', xs @ ys)"

inductive_cases buffer_stepE: "buffer_step s t"

definition owners :: "nat \<Rightarrow> (shared_buffer \<times> string) list \<Rightarrow> nat" where
  "owners a bs = length (filter (\<lambda>(b, d). data_of b = Some a) bs)"

lemma owners_simps [simp]:
  "owners a [] = 0" "owners a ((b, d) # bs) = (if data_of b = Some a then 1 else 0) + owners a bs"
  "owners a (xs @ ys) = owners a xs + owners a ys"
  by (simp_all add: owners_def)

lemma owners_pos: "(b, d) \<in> set bs \<Longrightarrow> data_of b = Some a \<Longrightarrow> 0 < owners a bs"
  by (induction bs) auto

definition handle_of :: "heap \<Rightarrow> shared_buffer \<Rightarrow> string \<Rightarrow> bool" where
  "handle_of h b d \<longleftrightarrow> (\<exists>a n. data_of b = Some a \<and> buffer_of b = (Some a, length d) \<and> cells h a = Some (d, n))"

definition buffers_inv :: "heap \<times> (shared_buffer \<times> string) list \<Rightarrow> bool" where
  "buffers_inv s \<longleftrightarrow> (case s of (h, bs) \<Rightarrow>
     (\<forall>a. case cells h a of None \<Rightarrow> owners a bs = 0 | Some (d, n) \<Rightarrow> n = owners a bs \<and> 0 < n) \<and>
     (\<forall>a. next_addr h \<le> a \<longrightarrow> cells h a = None) \<and> (\<forall>(b, d) \<in> set bs. handle_of h b d))"

lemma buffers_invD:
  assumes "buffers_inv (h, bs)"
  shows "cells h a = Some (d, n) \<Longrightarrow> n = owners a bs \<and> 0 < n" and "cells h a = None \<Longrightarrow> owners a bs = 0"
    and "next_addr h \<le> a \<Longrightarrow> cells h a = None" and "(b, e) \<in> set bs \<Longrightarrow> handle_of h b e"
proof -
  have all: "case cells h a of None \<Rightarrow> owners a bs = 0 | Some (d, n) \<Rightarrow> n = owners a bs \<and> 0 < n" for a
    using assms by (simp add: buffers_inv_def)
  show "cells h a = Some (d, n) \<Longrightarrow> n = owners a bs \<and> 0 < n" "cells h a = None \<Longrightarrow> owners a bs = 0"
    using all [of a] by simp_all
  show "next_addr h \<le> a \<Longrightarrow> cells h a = None" "(b, e) \<in> set bs \<Longrightarrow> handle_of h b e"
    using assms by (auto simp: buffers_inv_def)
qed

lemma buffers_invI:
  assumes "\<And>a d n. cells h a = Some (d, n) \<Longrightarrow> n = owners a bs \<and> 0 < n" and "\<And>a. cells h a = None \<Longrightarrow> owners a bs = 0"
    and "\<And>a. next_addr h \<le> a \<Longrightarrow> cells h a = None" and "\<And>b e. (b, e) \<in> set bs \<Longrightarrow> handle_of h b e"
  shows "buffers_inv (h, bs)"
  using assms by (auto simp: buffers_inv_def split: option.split)

lemma handle_ofE:
  assumes "handle_of h b d"
  obtains a n where "data_of b = Some a" "buffer_of b = (Some a, length d)" "cells h a = Some (d, n)"
  using assms unfolding handle_of_def by blast

lemma handle_kept:
  assumes "handle_of h b d" and "\<And>a n. cells h a = Some (d, n) \<Longrightarrow> data_of b = Some a \<Longrightarrow> \<exists>k. cells h' a = Some (d, k)"
  shows "handle_of h' b d"
  using assms unfolding handle_of_def by metis

lemma buffers_make:
  assumes i: "buffers_inv (h, bs)" and "make_buffer d h = (b, h')"
  shows "buffers_inv (h', (b, d) # bs)"
proof -
  let ?a = "next_addr h"
  have b: "b = \<lparr>data_of = Some ?a, buffer_of = (Some ?a, length d)\<rparr>" "h' = h\<lparr>next_addr := Suc ?a, cells := (cells h)(?a := Some (d, 1))\<rparr>"
    using assms(2) by (simp_all add: make_buffer_def Let_def)
  have f: "cells h ?a = None" using buffers_invD(3) [OF i] by simp
  note o = buffers_invD(2) [OF i f]
  show ?thesis
  proof (rule buffers_invI)
    fix x e assume "(x, e) \<in> set ((b, d) # bs)"
    then consider "x = b" "e = d" | "(x, e) \<in> set bs" by auto
    then show "handle_of h' x e"
    proof cases
      case 2
      then show ?thesis by (rule handle_kept [OF buffers_invD(4) [OF i]]) (use f in \<open>auto simp: b\<close>)
    qed (simp add: b handle_of_def)
  qed (use buffers_invD(1,2,3) [OF i] o in \<open>auto simp: b split: if_splits\<close>)
qed

lemma buffers_copy:
  assumes i: "buffers_inv (h, bs)" and m: "(b, d) \<in> set bs" and c: "copy_buffer b h = (b', h')"
  shows "buffers_inv (h', (b', d) # bs)"
proof -
  obtain a n where a: "data_of b = Some a" "buffer_of b = (Some a, length d)" "cells h a = Some (d, n)"
    using buffers_invD(4) [OF i m] by (rule handle_ofE)
  have h: "b' = b" "h' = h\<lparr>cells := (cells h)(a := Some (d, n + 1))\<rparr>" using c a by (simp_all add: copy_buffer_def)
  show ?thesis
  proof (rule buffers_invI)
    fix x e assume "(x, e) \<in> set ((b', d) # bs)"
    then have "(x, e) \<in> set bs" using m h(1) by auto
    then show "handle_of h' x e" by (rule handle_kept [OF buffers_invD(4) [OF i]]) (use a in \<open>auto simp: h\<close>)
  qed (use buffers_invD(1,2,3) [OF i] a in \<open>auto simp: h split: if_splits\<close>)
qed

lemma buffers_drop:
  assumes i: "buffers_inv (h, xs @ (b, d) # ys)" and c: "drop_buffer b h = h'"
  shows "buffers_inv (h', xs @ ys)"
proof -
  obtain a n where a: "data_of b = Some a" "cells h a = Some (d, n)"
    using buffers_invD(4) [OF i, of b d] by (auto elim: handle_ofE)
  have h: "h' = h\<lparr>cells := (cells h)(a := if n = 1 then None else Some (d, n - 1))\<rparr>" using c a by (simp add: drop_buffer_def)
  have n: "n = Suc (owners a (xs @ ys))" using buffers_invD(1) [OF i a(2)] a(1) by simp
  have o: "owners c (xs @ (b, d) # ys) = owners c (xs @ ys)" if "c \<noteq> a" for c using that a(1) by simp
  show ?thesis
  proof (rule buffers_invI)
    fix c e k assume k: "cells h' c = Some (e, k)"
    show "k = owners c (xs @ ys) \<and> 0 < k"
    proof (cases "c = a")
      case True
      with k n show ?thesis by (auto simp: h split: if_splits)
    next
      case False
      with k have "cells h c = Some (e, k)" by (simp add: h)
      from buffers_invD(1) [OF i this] show ?thesis unfolding o [OF False] .
    qed
  next
    fix c assume k: "cells h' c = None"
    show "owners c (xs @ ys) = 0"
    proof (cases "c = a")
      case True
      with k n show ?thesis by (simp add: h split: if_splits)
    next
      case False
      with k have "cells h c = None" by (simp add: h)
      from buffers_invD(2) [OF i this] show ?thesis unfolding o [OF False] .
    qed
  next
    fix c assume "next_addr h' \<le> c"
    then have "cells h c = None" using buffers_invD(3) [OF i] by (simp add: h)
    with a(2) show "cells h' c = None" by (auto simp: h)
  next
    fix x e assume x: "(x, e) \<in> set (xs @ ys)"
    then have "(x, e) \<in> set (xs @ (b, d) # ys)" by auto
    then show "handle_of h' x e"
      by (rule handle_kept [OF buffers_invD(4) [OF i]]) (use a n owners_pos [OF x] in \<open>auto simp: h\<close>)
  qed
qed

interpretation buffers: machine_invariant "\<lambda>s. s = (empty_heap, [])" buffer_step buffers_inv
proof unfold_locales
  fix s t assume "buffers_inv s" and "buffer_step s t"
  then show "buffers_inv t" by (elim buffer_stepE) (auto intro: buffers_make buffers_copy buffers_drop)
qed (simp add: buffers_inv_def empty_heap_def)

lemma handle_reads: "handle_of h b d \<Longrightarrow> read_buffer b h = Some d"
  by (auto simp: handle_of_def read_buffer_def)

lemma live_handles:
  assumes i: "buffers_inv (h, bs)" and m: "(b, d) \<in> set bs"
  shows "read_buffer b h = Some d" "buffer_valid b" "buffer_count b h = owners (the (data_of b)) bs" "0 < buffer_count b h"
proof -
  note x = buffers_invD(4) [OF i m]
  show "read_buffer b h = Some d" using x by (rule handle_reads)
  obtain a n where a: "data_of b = Some a" "cells h a = Some (d, n)" using x by (rule handle_ofE)
  with buffers_invD(1) [OF i a(2)]
  show "buffer_valid b" "buffer_count b h = owners (the (data_of b)) bs" "0 < buffer_count b h"
    by (simp_all add: buffer_valid_def buffer_count_def)
qed

lemma shared_owners:
  assumes "buffers_inv (h, bs)" and "(b, d) \<in> set bs"
  shows "owners (the (data_of b)) bs = length (filter (\<lambda>(c, e). data_of c = data_of b) bs)"
proof -
  obtain a where "data_of b = Some a" using buffers_invD(4) [OF assms] by (rule handle_ofE)
  then show ?thesis by (simp add: owners_def)
qed

lemma all_freed: "buffers_inv (h, []) \<Longrightarrow> cells h a = None"
  using buffers_invD(1) [of h "[]" a] by (cases "cells h a") auto

end
