(* ===== verification/Spec2Isabelle.thy ===== *)
theory Spec2Isabelle
  imports Sample_Run Server Shared_Buffer
begin

text \<open>
  A model of the FTP server \<^verbatim>\<open>ftpd\<close> and of its benchmark client, with the theorems that
  make them correct and those that show where they are not.

  \<^bold>\<open>The program.\<close> \<^verbatim>\<open>main.cc\<close> reads the configuration, registers the operators and
  starts the server. \<^verbatim>\<open>server.cc\<close> accepts control connections and gives each to one of
  its workers, a thread with an \<^verbatim>\<open>io_context\<close>. \<^verbatim>\<open>session/session.cc\<close> reads lines from
  the control connection, makes requests of them and dispatches each to an operator, which
  the registry of \<^verbatim>\<open>utils/\<close> makes from the command word; it also owns the idle timer.
  \<^verbatim>\<open>session/context.cc\<close> holds what the operators share: the login, the current
  directory, the acceptor and the socket of the data connection, and the queue of replies.
  The operators under \<^verbatim>\<open>op/\<close> answer at once, or wait for a data connection and transfer
  a listing or a file. An operator lives as long as a pending completion or a queued reply
  refers to it; the number of live operators decides over the idle timer and over the end of
  a session whose client has gone. \<^verbatim>\<open>client/benchmark.cc\<close> is a client that logs in and
  downloads one file.

  \<^bold>\<open>Form of the model.\<close> All handlers of a session run on one thread, so a run is a
  sequence of completions. The record \<open>sess\<close> holds a \<^verbatim>\<open>Session\<close>, its
  \<^verbatim>\<open>SessionContext\<close>, the operators on the heap and the pending asynchronous operations;
  \<open>complete e h s\<close> runs the handler \<open>h\<close> in the environment \<open>e\<close>, drops the references it
  held and destroys what nothing refers to any more. A callback is a constructor
  (\<open>handler\<close>, \<open>token\<close>) with the captured variables as arguments. The environment carries
  the configuration, the clock, the file system and the results of the system calls and of
  asio; the theorems hold for all of them, or under a named hypothesis on them
  (\<open>proper_calls\<close>, \<open>proper_fds\<close>, \<open>draining\<close>). A fallible step returns \<open>crash + 'a\<close>: an
  uncaught exception, a null pointer, a use of freed memory, an empty queue, a division by
  zero or a loop that does not end is a value \<open>Inl\<close>. \<open>sess_step\<close> is the step relation and
  \<open>reachable E n0\<close> its reachable states, where \<open>E\<close> restricts the environments and \<open>n0\<close> is
  the first value of the operator count, which the code leaves uninitialised.

  \<^bold>\<open>Theories.\<close>
  \<^item> \<open>Ftpd_Prelude\<close>: machine integers, abnormal ends and sequencing, characters, decimal
    numbers, streams of words, paths, and the contract of an invariant.
  \<^item> \<open>Replies\<close> (\<^verbatim>\<open>session/code.*\<close>), \<open>Shared_Buffer\<close> (the reference-counted bytes of
    a reply in \<^verbatim>\<open>session/code.h\<close>, over a heap with owner counts), \<open>Ftpd_Config\<close> (\<^verbatim>\<open>config/*\<close>), \<open>Registry\<close>
    (\<^verbatim>\<open>utils/*\<close>), \<open>Requests\<close> (\<^verbatim>\<open>session/ftp_request.h\<close> and the parser of
    \<^verbatim>\<open>session.cc\<close>).
  \<^item> \<open>Session_State\<close> (\<^verbatim>\<open>session/context.*\<close>), \<open>Operators\<close> (\<^verbatim>\<open>op/basic_op.*\<close>,
    constructors and destructors), \<open>Control_Ops\<close>, \<open>Listing\<close>, \<open>Transfers\<close> (the other
    files of \<^verbatim>\<open>op/\<close>), \<open>Session_Loop\<close> (\<^verbatim>\<open>session/session.cc\<close>, the handlers and the
    step relation), \<open>Server\<close> (\<^verbatim>\<open>server.*\<close>, \<^verbatim>\<open>main.cc\<close>), \<open>Client\<close>
    (\<^verbatim>\<open>client/benchmark.cc\<close>).
  \<^item> \<open>Ownership\<close>, \<open>Handlers\<close>, \<open>Reachability\<close>: what the operations change, that every
    reference is to a live operator of the right class (\<open>op_inv\<close>), and the rule for further
    invariants (locale \<open>session_invariant\<close>).
  \<^item> \<open>Session_Shape\<close> (one read or one closing wait, at most one write and one idle wait;
    replies in order), \<open>Idle_Timer\<close>, \<open>Session_End\<close>, \<open>Session_Faults\<close>, \<open>Holdings\<close> (file
    descriptors), \<open>Login\<close>, \<open>Crash_Facts\<close> (how a completion can fail), \<open>Transfer_Facts\<close>,
    \<open>Operator_Facts\<close>, \<open>Transfer_Runs\<close> (bytes moved), \<open>Refinement\<close> (the reply channel and
    the login as abstract machines, with a locale for simulations), \<open>Client_Facts\<close> (round
    trips and the session of the client).
  \<^item> \<open>Request_Effects\<close>: one request over the whole chain from the completed read to the
    release of its operator: which requests change the file system or the directory, and how
    many replies each gets. \<open>Exchange\<close>: sequences of completions that do happen (\<open>execute\<close>),
    the session \<open>at_rest\<close>, and a request with its written reply. \<open>Transfer_Sessions\<close>: whole
    downloads and uploads from rest to rest, with the bytes that a download puts on the data
    connection (\<open>bytes_sent\<close>: each \<^verbatim>\<open>sendfile\<close> takes the next ones of the contents), and
    the download of a file that has become shorter. \<open>Listing_Session\<close>: a whole listing. \<open>Transfer_Faults\<close>: two transfers at a time.
    \<open>Conversation\<close>: the client and the server together, from the greeting to the last reply.
  \<^item> \<open>Process\<close>: the server with the sessions of all its clients over one file system. Its
    states hold only reachable states of single sessions, so the properties of sessions hold
    of each; further, how the process ends and what a handler that does not return does.
    \<open>Process_Sessions\<close>: the converse, that a run of one session is a run of the process
    beside the other sessions, and the client counter in the reply to STAT.
  \<^item> \<open>Sample_Run\<close>: a small file system and executed runs, which show that the hypotheses
    of the properties can hold.

  \<^bold>\<open>Bounds.\<close> Offsets and sizes are \<open>64 word\<close>, ports and limits \<open>16 word\<close>, the counters
  \<open>32 word\<close>. The results about the idle timer and the end of a session need the count to
  start at 0 and fewer than \<open>2 ^ 32\<close> operators created in the session, since the count wraps;
  round robin holds for \<open>2 ^ 32\<close> connections, after which the index wraps. The copy
  loops consume a list of results of system calls; a loop that still runs when the list is
  used up is \<open>Hang\<close>, and the theorems on copying give lists on which it ends.

  \<^bold>\<open>Not modelled.\<close> The text of the log, except that an argument of a log line
  that can throw does so; \<^verbatim>\<open>name()\<close> of the operators, which nothing calls;
  class declarations and accessors, which have no behaviour of their own; the length of the
  limiter's pause; the argument parser and the progress bar of the client, which are third-party
  code the source configures; asio, the JSON library, \<^verbatim>\<open>std::filesystem\<close> and
  Linux, which are the environment; and the threads of the client, whose sessions share no modelled
  state. Workers may run at the same time; a step of \<open>Process\<close> is a whole handler, so
  races between the system calls of two handlers are not seen. A signed overflow in the client's
  computation of the port is taken to wrap.
\<close>

text \<open>
  C1: The session implements the reply channel: a reachable state maps to a state the channel reaches from a fresh one, every completion is a run of channel steps, each a submission, the delivery of the oldest reply, or the loss of all waiting ones, and no written reply is taken back.
\<close>

theorem session_refines_channel:
  assumes "reachable E n0 s" and "deliverable h s" and "complete e h s = Inr t"
  shows "(\<exists>c. fresh_channel c \<and> channel_step\<^sup>*\<^sup>* c (channel_of s)) \<and>
         channel_step\<^sup>*\<^sup>* (channel_of s) (channel_of t) \<and> prefix (sent s) (sent t)"
proof -
  obtain s0 where "started n0 s0" "(sess_step E)\<^sup>*\<^sup>* s0 s" using assms(1) by (auto simp: reachable_def)
  moreover have "op_inv n0 s" "shape s" using assms(1) by (simp_all add: reachable_op_inv shaped.in_reachable)
  ultimately have c: "\<exists>c. fresh_channel c \<and> channel_step\<^sup>*\<^sup>* c (channel_of s)" "channel_step\<^sup>*\<^sup>* (channel_of s) (channel_of t)"
    using replies.sim_reached channel_completion [OF _ _ assms(2,3)] by blast+
  with channel_written [OF c(2)] show ?thesis by (simp add: channel_of_def)
qed

lemma session_refines_channel_witness:
  "\<exists>t. complete calm_env OnWrite (after transfer_run) = Inr t \<and> channel_step\<^sup>*\<^sup>* (channel_of (after transfer_run)) (channel_of t)"
proof -
  have "\<not> isl (complete calm_env OnWrite (after transfer_run))" by code_simp
  then obtain t where "complete calm_env OnWrite (after transfer_run) = Inr t" using result_exists by blast
  moreover have "deliverable OnWrite (after transfer_run)" using transfer_facts by (simp add: deliverable_def)
  ultimately show ?thesis using session_refines_channel [OF after_any, of OnWrite transfer_run calm_env t] by blast
qed

text \<open>
  C2: The login follows its specification on every completion: only a request that is read can change it, \<^verbatim>\<open>USER\<close> sets the name, \<^verbatim>\<open>PASS\<close> after a name logs in, and a member stays what it is.
\<close>

theorem session_refines_login:
  assumes "reachable (\<lambda>e. cfg e = c) n0 s" and "cfg e = c" and "complete e h s = Inr t"
  shows "phase_of t = phase_after c (heard e h s) (phase_of s)"
  using phase_completion [OF reachable_op_inv [OF assms(1)] _ assms(3)] logins.in_reachable [OF assms(1)] assms(2) by simp

lemma session_refines_login_witness:
  "\<exists>t. complete (line_env ''user bob'') OnRead (after banner_run) = Inr t \<and> phase_of t = Guest ''bob''"
proof -
  have "\<not> isl (complete (line_env ''user bob'') OnRead (after banner_run))" by code_simp
  then obtain t where t: "complete (line_env ''user bob'') OnRead (after banner_run) = Inr t" using result_exists by blast
  have "heard (line_env ''user bob'') OnRead (after banner_run) = Some \<lparr>command = ''USER'', body = ''bob''\<rparr>" by code_simp
  moreover have "phase_of (after banner_run) = Guest []" using banner_facts by (simp add: phase_of_def)
  ultimately show ?thesis
    using t session_refines_login [OF runs_config(2) _ t] by (simp add: phase_after_def)
qed



text \<open>
  C4: Every request is answered. A completed read that holds a request hands over one reply; none only if the request is a transfer that now waits for its data connection; two only if it is an upload whose pipe could not be made. The descriptors the system hands out are positive or -1.
\<close>

theorem requests_are_answered:
  assumes "reachable E n0 s" and "proper_fds e" and "complete e h s = Inr t" and "heard e h s = Some r"
  shows "\<exists>rs. submitted t = submitted s @ rs \<and> length rs \<le> 2 \<and>
     (rs = [] \<longrightarrow> command r \<in> {''RETR'', ''STOR'', ''LIST''} \<and> OnAccept (next_op s) \<in> set (pending t)) \<and>
     (length rs = 2 \<longrightarrow> command r = ''STOR'' \<and> os_pipe (sys e) (world t) = None)"
proof -
  have "request_answered e r s t"
    using completion_effect [OF reachable_op_inv [OF assms(1)] assms(3)] assms(2,4) by (simp add: effect_def)
  then consider "served_by s r = None" "\<exists>b. submitted t = submitted s @ [b]"
    | c where "served_by s r = Some c" "answered e c s t"
    by (auto simp: request_answered_def split: option.splits)
  then show ?thesis
  proof cases
    case 1
    then obtain b where "submitted t = submitted s @ [b]" by blast
    then show ?thesis by (intro exI [of _ "[b]"]) simp
  next
    case (2 c)
    from answering_commands [OF 2(1)] 2(2) show ?thesis unfolding answered_def by blast
  qed
qed

lemma requests_are_answered_witness:
  "\<exists>t. complete (line_env ''retr a'') OnRead (after passive_run) = Inr t \<and>
       (\<exists>rs. submitted t = submitted (after passive_run) @ rs \<and> length rs \<le> 2)"
proof -
  have "\<not> isl (complete (line_env ''retr a'') OnRead (after passive_run))" by code_simp
  then obtain t where t: "complete (line_env ''retr a'') OnRead (after passive_run) = Inr t" using result_exists by blast
  have h: "heard (line_env ''retr a'') OnRead (after passive_run) = Some \<lparr>command = ''RETR'', body = ''a''\<rparr>" by code_simp
  have "proper_fds (line_env ''retr a'')" by (rule tree_proper) simp
  from requests_are_answered [OF after_any this t h] t show ?thesis by blast
qed



text \<open>
  C6: The process is a composition of sessions: whatever the clients, the workers and other programs do, each session in it is a reachable state of one session alone, so that every property of sessions holds of it; each runs on a worker that exists; and the client counter counts the sessions that are alive.
\<close>

theorem process_runs_sessions:
  assumes "launched c hw p0" and "(process_step E c)\<^sup>*\<^sup>* p0 p"
  shows "(\<forall>(wk, x) \<in> set (assigned (srv p)). wk < hw \<and> (\<exists>n0. reachable (\<lambda>e. E e \<and> cfg e = c) n0 x)) \<and>
         client_count (srv p) = of_nat (live_sessions p)"
proof -
  have "sessions_ok E c hw (srv p)" using processes.reached_inv [OF assms] .
  with sessions_counted [OF this] show ?thesis by (auto simp: sessions_ok_def server_inv_def)
qed

lemma process_runs_sessions_witness:
  "\<exists>p0 p. launched global_config 2 p0 \<and> (process_step anyenv global_config)\<^sup>*\<^sup>* p0 p \<and>
       length (assigned (srv p)) = 1 \<and> client_count (srv (p :: tree process)) = of_nat (live_sessions p)"
proof -
  obtain p0 :: "tree process" where p0: "launched global_config 2 p0" "assigned (srv p0) = []" using launch_sample by blast
  let ?p = "admit global_config True (Inr ''10.0.0.9:4000'') ''/srv'' 0 p0"
  have "length (assigned (srv ?p)) = 1" using admit_sample [OF p0] by simp
  moreover have r: "(process_step anyenv global_config)\<^sup>*\<^sup>* p0 ?p"
    using p0(1) by (intro r_into_rtranclp process_step.accept) (simp_all add: launched_def)
  ultimately show ?thesis using p0(1) process_runs_sessions [OF p0(1) r] by blast
qed







text \<open>
  C10: Until the client has logged in, the session holds no operator, no acceptor and no data connection, and whatever the client sends leaves the file system and the current directory alone.
\<close>

theorem login_is_required:
  assumes "reachable (\<lambda>e. cfg e = c) n0 s" and "\<not> verified s"
    and "cfg e = c" and "deliverable h s" and "complete e h s = Inr t"
  shows "operators s = [] \<and> acceptor s = AccClosed \<and> data_socket s = None \<and>
         operators t = [] \<and> acceptor t = AccClosed \<and> data_socket t = None \<and>
         world t = world s \<and> current_path t = current_path s"
proof -
  have i: "op_inv n0 s" "login_inv c s"
    using assms(1) by (simp_all add: reachable_op_inv logins.in_reachable)
  then have g: "guest s" "\<not> is_anonymous s" using assms(2) by (simp_all add: login_inv_def)
  have "h \<in> set (pending s)" using assms(4) by (simp add: deliverable_def)
  from guest_completion [OF i(1) g(1) assms(2) g(2) this, of e] assms(5) g(1)
  show ?thesis by (simp add: guest_result_def untouched_def guest_def)
qed

lemma login_is_required_witness:
  "\<exists>t. complete (line_env ''mkd x'') OnRead (after banner_run) = Inr t \<and> world t = world (after banner_run)"
proof -
  have d: "deliverable OnRead (after banner_run)" "\<not> verified (after banner_run)"
    using banner_facts by (simp_all add: deliverable_def)
  have "\<not> isl (complete (line_env ''mkd x'') OnRead (after banner_run))" by code_simp
  then have "\<exists>t. complete (line_env ''mkd x'') OnRead (after banner_run) = Inr t" by (rule result_exists)
  then show ?thesis
    using login_is_required [OF runs_config(2) d(2) _ d(1), of "line_env ''mkd x''"] by auto
qed





text \<open>
  C13: The listing reaches the client: it is made of the current directory when the client has connected, one line for each entry in order, with its type, permissions and name, and is written between the replies 150 and 226. Both replies are sent whether or not the write of the listing went well.
\<close>

theorem listing_reaches_client:
  assumes "reachable E 0 s" and "at_rest s" and "verified s"
    and "parse_line l (request s) = (True, \<lparr>command = ''LIST'', body = b\<rparr>)"
    and "acceptor s \<noteq> AccClosed" and "connection_ok e" and "list_file e (current_path s) (world s) = Inr response"
  shows "\<exists>t its lines. execute (listing_session e l (next_op s) response z) s = Some t \<and> at_rest t \<and> acceptor t = AccClosed \<and>
     os_directory_iterator (sys e) (world s) (current_path s) = Inr its \<and>
     list_all2 (\<lambda>it line. list_entry e it = Inr line \<and> (\<exists>ty perms x. de_status it = Inr (ty, perms) \<and>
       line = type_char ty @ perm_string perms @ x @ de_name it @ crlf)) its lines \<and>
     listings t = listings s @ (if ec_of z = Success then [concat lines] else []) \<and>
     sent t = sent s @ [get_code_string data_conn, get_code_string transfer_complete] \<and>
     world t = world s \<and> current_path t = current_path s"
proof -
  have "served_by s \<lparr>command = ''LIST'', body = b\<rparr> = Some ListOp" using assms(3) by (simp add: served_by_def registrations_def)
  from listing_complete [OF assms(2,4) this assms(5-7), of z] obtain t where
    "execute (listing_session e l (next_op s) response z) s = Some t" "at_rest t" "account t = account s" "acceptor t = AccClosed"
    "listings t = listings s @ (if ec_of z = Success then [response] else [])"
    "sent t = sent s @ [get_code_string data_conn, get_code_string transfer_complete]" by blast
  moreover have "world t = world s" "current_path t = current_path s" using calculation(3) by (simp_all add: account_def)
  ultimately show ?thesis using list_file_lines [OF assms(7)] by blast
qed

lemma listing_reaches_client_witness:
  "\<exists>response t x. execute (listing_session listing_env (''list'' @ crlf) 3 response calm_env) (after passive_run) = Some t \<and>
     at_rest t \<and> listings t = listings (after passive_run) @ [''-'' @ x @ ''a'' @ crlf]"
proof -
  let ?s = "after passive_run"
  have v: "verified ?s" "acceptor ?s \<noteq> AccClosed" "next_op ?s = 3" "current_path ?s = ''/srv''"
    using passive_facts by simp_all
  have p: "parse_line (''list'' @ crlf) (request ?s) = (True, \<lparr>command = ''LIST'', body = []\<rparr>)" by code_simp
  have c: "connection_ok listing_env" using calm_connection(1) by (simp add: connection_ok_def listing_env_def)
  have "\<not> isl (list_file listing_env (current_path ?s) (world ?s))" by code_simp
  then obtain r where r: "list_file listing_env (current_path ?s) (world ?s) = Inr r" using result_exists by blast
  obtain it where it: "os_directory_iterator (sys listing_env) (world ?s) (current_path ?s) = Inr [it]" "de_name it = ''a''"
    "de_status it = Inr (ft_regular, 420)"
    by (simp add: listing_env_def)
  have z: "ec_of calm_env = Success" by (simp add: calm_env_def)
  from listing_reaches_client [OF after_any passive_rest v(1) p v(2) c r, of calm_env] z it
  show ?thesis unfolding v(3) by (fastforce simp: list_all2_Cons1 simp del: execute.simps)
qed

text \<open>
  C14: Once the greeting is out, what was written followed by what still waits is a subsequence of what was handed over, and all of it unless a write failed.
\<close>

theorem replies_in_order:
  assumes "reachable E n0 s" and "\<forall>b. OnBanner b \<notin> set (pending s)"
  shows "subseq (sent s @ map fst (message_queue s)) (submitted s) \<and>
         (dropped s = [] \<longrightarrow> submitted s = sent s @ map fst (message_queue s))"
proof -
  have "\<not> starting s" using assms(2) by (auto simp: starting_def)
  with shape_fifo [OF shaped.in_reachable [OF assms(1)]] show ?thesis by (simp add: fifo_def)
qed

lemma replies_in_order_witness:
  "subseq (sent (after transfer_run) @ map fst (message_queue (after transfer_run))) (submitted (after transfer_run)) \<and>
   length (message_queue (after transfer_run)) = 1"
  using replies_in_order [OF after_any, of transfer_run] transfer_facts by simp

text \<open>
  C15: In a session that was greeted and is not destroyed, a control write is pending exactly when the message queue is not empty, and then exactly one; a completed write therefore always finds a message to pop.
\<close>

theorem one_control_write:
  assumes "reachable E n0 s" and "\<not> destroyed s" and "\<forall>b. OnBanner b \<notin> set (pending s)"
  shows "count_list (pending s) OnWrite = (if message_queue s = [] then 0 else 1)"
proof -
  have "shape s" using assms(1) by (rule shaped.in_reachable)
  with assms(2,3) have "in_service s" by (auto simp: shape_def starting_def)
  then show ?thesis using own_count [of OnWrite s] by (simp add: in_service_def writing_def)
qed

lemma one_control_write_witness:
  "count_list (pending (after transfer_run)) OnWrite = 1 \<and> message_queue (after transfer_run) \<noteq> []"
  using one_control_write [OF after_any, of transfer_run] transfer_facts by fastforce

text \<open>
  C16: No completion of an operator outlives it: whatever is pending or queued refers to an operator that is alive, of the right class and, for a transfer, with an open file and its completion token set.
\<close>

theorem references_are_alive:
  assumes "reachable E n0 s"
  shows "(\<forall>h \<in> set (pending s). handler_fits (\<lambda>i. lookup_op i s) h) \<and>
         (\<forall>m \<in> set (message_queue s). token_fits (\<lambda>i. lookup_op i s) (snd m))"
  using reachable_op_inv [OF assms] by (simp add: op_inv_def lookup_op_def)

lemma references_are_alive_witness:
  "handler_fits (\<lambda>i. lookup_op i (after download_run)) (OnSendReady 3) \<and> OnSendReady 3 \<in> set (pending (after download_run))"
  using references_are_alive [OF after_any, of download_run] download_facts by simp

text \<open>
  C17: The counter counts the live operators, starting from whatever value it had, and between two completions every live operator is referenced by a pending completion or a queued message.
\<close>

theorem operators_are_counted:
  assumes "reachable E n0 s"
  shows "active_op_num s = n0 + of_nat (length (operators s)) \<and>
         (\<forall>i \<in> fst ` set (operators s). referenced i s)"
  using reachable_op_inv [OF assms] orphans.in_reachable [OF assms] by (simp add: op_inv_def no_orphans_def)

lemma operators_are_counted_witness:
  "active_op_num (after transfer_run) = 1 \<and> referenced 3 (after transfer_run)"
  using operators_are_counted [OF after_any, of transfer_run] transfer_facts by simp

text \<open>
  C18: Whatever the order of transfers, failures and disconnects, the descriptors opened and not closed are those of the live operators, as long as the system does not hand out the descriptor 0.
\<close>

theorem descriptors_are_balanced:
  assumes "reachable proper_fds n0 s"
  shows "mset (open_fds s) = fds_in (operators s) \<and> (operators s = [] \<longrightarrow> open_fds s = [])"
  using descriptors.in_reachable [OF assms] by (auto simp: balanced_def)

lemma descriptors_are_balanced_witness:
  "mset (open_fds (after upload_run)) = {#6, 7, 8#} \<and> fds_in (operators (after upload_run)) = {#6, 7, 8#}"
  using descriptors_are_balanced [OF runs_proper(2)] upload_facts by simp

text \<open>
  C19: The current directory changes only through \<^verbatim>\<open>CWD\<close> and \<^verbatim>\<open>CDUP\<close> after the login, and what it changes to is the canonical form of a target that exists and is a directory; nothing else happens to the file system then.
\<close>

theorem directory_is_entered:
  assumes "reachable E n0 s" and "complete e h s = Inr t" and "current_path t \<noteq> current_path s"
  shows "world t = world s \<and> (\<exists>r. heard e h s = Some r \<and> verified s \<and>
     (command r \<in> {''CWD'', ''XCWD''} \<and> enters e s (body r) (current_path t) \<or>
      command r \<in> {''CDUP'', ''XCUP''} \<and> enters e s ''..'' (current_path t)))"
proof -
  note f = completion_effect [OF reachable_op_inv [OF assms(1)] assms(2)]
  obtain r where h: "heard e h s = Some r" using f assms(3) by (cases "heard e h s") (auto simp: effect_def)
  with f have "request_effect e r s t" by (simp add: effect_def)
  then obtain c where c: "served_by s r = Some c" "file_effect e c r s t"
    using assms(3) by (auto simp: request_effect_def split: option.splits)
  then have "world t = world s" "c = ChangeWorkingDirOp \<and> enters e s (body r) (current_path t) \<or>
      c = CdToParentOp \<and> enters e s ''..'' (current_path t)"
    using assms(3) by (auto simp: file_effect_def)
  with h answering_commands [OF c(1)] show ?thesis by blast
qed

lemma directory_is_entered_witness:
  "\<exists>t. complete (line_env ''cwd d'') OnRead (after mkd_run) = Inr t \<and> current_path t = ''/srv/d'' \<and>
       world t = world (after mkd_run)"
proof -
  have "map_sum id current_path (complete (line_env ''cwd d'') OnRead (after mkd_run)) = Inr ''/srv/d''" by code_simp
  then obtain t where t: "complete (line_env ''cwd d'') OnRead (after mkd_run) = Inr t" "current_path t = ''/srv/d''"
    by (cases "complete (line_env ''cwd d'') OnRead (after mkd_run)") auto
  moreover have "current_path (after mkd_run) = ''/srv''" by code_simp
  ultimately show ?thesis using directory_is_entered [OF after_any t(1)] by auto
qed

text \<open>
  C20: The idle timer runs exactly while the session has nothing to do. The bound on the number of operators keeps the 32-bit count from wrapping.
\<close>

theorem idle_timer_discipline:
  assumes "reachable E 0 s" and "next_op s < 2 ^ 32" and "\<not> stoped s"
  shows "(timer_expiry s \<noteq> Never \<longrightarrow> operators s = [] \<and> message_queue s = []) \<and>
         (operators s = [] \<and> message_queue s = [] \<and> dropped s = [] \<longrightarrow> timer_expiry s \<noteq> Never)"
proof -
  have "timed s" "armed s"
    using timer_facts [OF assms(1)] assms(2,3) by (simp_all add: clauses_def few_ops_def)
  then show ?thesis unfolding timed_def armed_def calm_def by blast
qed

lemma idle_timer_discipline_witness:
  "timer_expiry (after transfer_run) = Never \<and> operators (after transfer_run) \<noteq> []"
  using idle_timer_discipline [OF after_any, of transfer_run] transfer_facts by fastforce

text \<open>
  C21: An idle session ends cleanly: after the timeout only the read is pending, and its completion, with any error, is the last handler of the session.
\<close>

theorem idle_timeout_ends_session:
  assumes "reachable E 0 s" and "next_op s < 2 ^ 32" and "\<not> stoped s" and "OnIdle \<in> set (pending s)"
    and "\<not> destroyed s" and "timer_expiry s = At t" and "t \<le> now e" and "ec_of e' \<noteq> Success"
  shows "\<exists>u v. complete e OnIdle s = Inr u \<and> stoped u \<and> \<not> control_open u \<and> pending u = [OnRead] \<and>
           complete e' OnRead u = Inr v \<and> destroyed v \<and> pending v = [] \<and> operators v = []"
proof -
  have f: "op_inv 0 s" "shape s" "clauses s" "few_ops s"
    using timer_facts [OF assms(1)] assms(2) by (simp_all add: few_ops_def)
  have srv: "in_service s" using assms(4) by (intro alive_in_service [OF f(2) assms(5)]) auto
  let ?u = "close (s\<lparr>pending := [OnRead]\<rparr>)"
  note c = idle_closes [OF f(1) srv f(3,4) assms(3,6,7)]
  have u: "operators ?u = []" "pending ?u = [OnRead]" "active_op_num ?u = 0" "\<not> destroyed ?u"
    using c(2) f(1) assms(5) by (simp_all add: close_def calm_def op_inv_def)
  obtain v where v: "complete e' OnRead ?u = Inr v" "destroyed v" "pending v = []" "operators v = []"
    using last_read [OF u assms(8)] by blast
  with c(1) show ?thesis by (intro exI [of _ ?u] exI [of _ v]) (simp add: close_def)
qed

lemma idle_timeout_ends_session_witness:
  "\<exists>u v. complete (calm_env\<lparr>now := 30000000000\<rparr>) OnIdle (after login_run) = Inr u \<and>
         complete (calm_env\<lparr>ec_of := Aborted\<rparr>) OnRead u = Inr v \<and> destroyed v \<and> pending v = []"
  using idle_timeout_ends_session [OF after_any, of login_run 20000000000 "calm_env\<lparr>now := 30000000000\<rparr>"
      "calm_env\<lparr>ec_of := Aborted\<rparr>"] login_facts by auto

text \<open>
  C22: The end of the input during a transfer does not cut it off: the session is closed, keeps its operators and is held by the closing wait.
\<close>

theorem eof_waits_for_operators:
  assumes "reachable E 0 s" and "next_op s < 2 ^ 32" and "\<not> destroyed s" and "operators s \<noteq> []" and "ec_of e = Eof"
  shows "\<exists>t. complete e OnRead s = Inr t \<and> \<not> destroyed t \<and> stoped t \<and> operators t = operators s \<and>
           OnKeepAlive \<in> set (pending t)"
  using timer_facts [OF assms(1)] assms orphans.in_reachable [OF assms(1)] by (intro eof_waits) (simp_all add: few_ops_def)

lemma eof_waits_for_operators_witness:
  "\<exists>t. complete (failing_env Eof) OnRead (after download_run) = Inr t \<and> stoped t \<and> length (operators t) = 1"
  using eof_waits_for_operators [OF after_any, of download_run "failing_env Eof"] download_facts
  by (auto simp: failing_env_def)

text \<open>
  C23: The closing wait completes only when the session has nothing left to do: no operator is alive and no reply waits.
\<close>

theorem closing_wait_ends_with_work:
  assumes "reachable E 0 s" and "next_op s < 2 ^ 32" and "deliverable OnKeepAlive s"
  shows "stoped s \<and> operators s = [] \<and> message_queue s = []"
  using timer_facts [OF assms(1)] assms(2,3)
  by (auto simp: clauses_def few_ops_def held_def calm_def deliverable_def)

lemma closing_wait_ends_with_work_witness: "deliverable OnKeepAlive (after lost_run) \<and> operators (after lost_run) = []"
  using closing_wait_ends_with_work [OF after_any, of lost_run] lost_facts by (auto simp: deliverable_def)

text \<open>
  C24: STAT tells the truth about the process: in any state the process can reach, a session at rest answers STAT with its own address, user, type and timeout and the number of sessions that are alive, and the other sessions are as before. Below 2^31 sessions the signed counter has not wrapped.
\<close>

theorem stat_counts_sessions:
  assumes "launched c hw p0" and "(process_step E c)\<^sup>*\<^sup>* p0 p" and "serviceable k p"
    and "at_rest (session_at k p)" and "verified (session_at k p)"
    and "parse_line l (request (session_at k p)) = (True, \<lparr>command = ''STAT'', body = b\<rparr>)"
    and "env_in E c p (brings l e)" and "env_in E c p (good e)"
    and "control_addr e = Inr addr" and "peer_ok e" and "live_sessions p < 2 ^ 31"
  shows "\<exists>q. (process_step E c)\<^sup>*\<^sup>* p q \<and> beside k p q \<and> at_rest (session_at k q) \<and>
     sent (session_at k q) = sent (session_at k p) @ [stat_text (e\<lparr>clients := int (live_sessions p)\<rparr>) addr (session_at k p)]"
proof -
  have "clients (good e) = int (live_sessions p)"
    using counter_shows [OF processes.reached_inv [OF assms(1,2)] assms(11)] assms(8) by (simp add: env_in_def)
  then have n: "e\<lparr>clients := int (live_sessions p)\<rparr> = e" by (simp add: good_def)
  obtain t where t: "execute (ask_with e l) (session_at k p) = Some t" "at_rest t"
    "sent t = sent (session_at k p) @ [stat_text e addr (session_at k p)]"
    using stat_exchange [OF assms(4,6,5,10,9)] by blast
  have "\<not> destroyed t" using t(2) by (simp add: at_rest_def)
  from session_runs [OF assms(3) t(1) this, of E c] assms(7,8) t(2,3) show ?thesis by (auto simp: n ask_with_def)
qed

lemma stat_counts_sessions_witness:
  "\<exists>p q :: tree process. (process_step anyenv sample_config)\<^sup>*\<^sup>* p q \<and> beside 0 p q \<and>
     sent (session_at 0 q) = sent (after login_run) @ [stat_text (calm_env\<lparr>clients := 1\<rparr>) ''10.0.0.1'' (after login_run)]"
proof -
  obtain p0 p :: "tree process" where p: "launched sample_config 2 p0" "(process_step anyenv sample_config)\<^sup>*\<^sup>* p0 p"
    "serviceable 0 p" "session_at 0 p = after login_run" "client_count (srv p) = 1" "live_sessions p = 1"
    using logged_in_process by blast
  have "client_num 1 = 1" by (simp add: client_num_def)
  then have e: "env_in anyenv sample_config p (brings l calm_env)" "env_in anyenv sample_config p (good calm_env)" for l
    using p(5) by (simp_all add: env_in_def anyenv_def brings_def good_def calm_env_def)
  have l: "parse_line (''stat'' @ crlf) (request (session_at 0 p)) = (True, \<lparr>command = ''STAT'', body = []\<rparr>)"
    unfolding p(4) by code_simp
  have r: "at_rest (session_at 0 p)" "verified (session_at 0 p)" using login_rest login_facts by (simp_all add: p(4))
  have a: "control_addr calm_env = Inr ''10.0.0.1''" "peer_ok calm_env" by (simp_all add: calm_env_def)
  from stat_counts_sessions [OF p(1-3) r l e(1) e(2) a] p(4,6) show ?thesis by auto
qed



text \<open>
  C26: The client's copy of the receiving loop is the server's: for every sequence of outcomes both leave the same bytes in pipe and file, stop waiting, stop with an error, or do not end.
\<close>

theorem client_loop_is_server_loop:
  "map_sum id (\<lambda>(st, t). (st, in_pipe t, written_to t)) (splice_all free r rs) =
     (case splice_loop rs (in_pipe r) (written_to r) of
        LoopDone p w \<Rightarrow> Inr (waiting_for_readable, p, w)
      | LoopError p w \<Rightarrow> Inr (unexpected_terminate, p, w)
      | LoopRunning \<Rightarrow> Inl Hang)"
  by (rule splice_server)

text \<open>
  C27: A request of the client reaches the server as it was meant: the command word in upper case, the argument unchanged as long as its words are separated by single blanks.
\<close>

theorem request_round_trip:
  assumes "is_word cmd" and "list_all is_word ws"
  shows "parse_line (build_req \<lparr>command = cmd, body = join_with '' '' ws\<rparr>) r =
           (True, \<lparr>command = map toupper cmd, body = join_with '' '' ws\<rparr>)"
  using assms by (intro parse_build_req) (simp_all add: list_all_iff)

lemma request_round_trip_witness:
  "parse_line (build_req \<lparr>command = ''retr'', body = ''my file''\<rparr>) \<lparr>command = ''NOOP'', body = ''x''\<rparr> = (True, \<lparr>command = ''RETR'', body = ''my file''\<rparr>)"
proof -
  have "map toupper ''retr'' = ''RETR''" by code_simp
  then show ?thesis
    using request_round_trip [of "''retr''" "[''my'', ''file'']" "\<lparr>command = ''NOOP'', body = ''x''\<rparr>"] by (simp add: is_word_def isspace_def Let_def)
qed

text \<open>
  C28: A reply built from a code and a text is one line of the protocol, and the client's reader gives back its code and its text with the line end.
\<close>

theorem reply_round_trip:
  assumes "set info \<inter> set crlf = {}"
  shows "reply_line (get_code_string_info c info) \<and>
         build_resp (get_code_string_info c info) = Inr (Some \<lparr>code = int (code_num c), msg = info @ crlf\<rparr>)"
  using reply_line_info [of info c] build_resp_info [of c info] assms by blast

lemma reply_round_trip_witness:
  "build_resp (get_code_string_info logged_on ''Already logged in.'') = Inr (Some \<lparr>code = 230, msg = ''Already logged in.'' @ crlf\<rparr>)"
  using reply_round_trip [of "''Already logged in.''" logged_on] by (simp add: crlf_def)

text \<open>
  C29: The address and the port of the passive reply survive their way as six numbers: the client connects where the server listens, for every 16-bit port.
\<close>

theorem pasv_round_trip:
  assumes "length ips = 4" and "list_all numeral_string ips"
  shows "\<exists>m. build_resp (get_pasv_response (join_with ''.'' ips) p) = Inr (Some \<lparr>code = int (code_num pasv_ok), msg = m\<rparr>) \<and>
             pasv_target m = Inr (Some (join_with ''.'' ips, p))"
  using pasv_reply [OF assms(1)] pasv_target_reply [OF assms(1)] assms(2) unfolding list_all_iff by blast

lemma pasv_round_trip_witness:
  "\<exists>m. build_resp (get_pasv_response ''10.0.0.1'' 50123) = Inr (Some \<lparr>code = 227, msg = m\<rparr>) \<and>
         pasv_target m = Inr (Some (''10.0.0.1'', 50123))"
  using pasv_round_trip [of "[''10'', ''0'', ''0'', ''1'']" 50123] by (simp add: numeral_string_def isdigit_def Let_def)

text \<open>
  C30: A shared buffer outlives the queue entry it came from: every live handle reads the bytes it was made from, counts the handles that share them, and without handles no memory is left.
\<close>

theorem buffers_stay_readable:
  assumes "buffer_step\<^sup>*\<^sup>* (empty_heap, []) (h, bs)"
  shows "(\<forall>(b, d) \<in> set bs. read_buffer b h = Some d \<and> buffer_valid b \<and>
            buffer_count b h = length (filter (\<lambda>(c, e). data_of c = data_of b) bs)) \<and>
         (bs = [] \<longrightarrow> (\<forall>a. cells h a = None))"
proof -
  have i: "buffers_inv (h, bs)" using buffers.reached_inv [OF refl assms] .
  then show ?thesis using live_handles [OF i] all_freed shared_owners [OF i] by auto
qed

lemma buffers_stay_readable_witness:
  "\<exists>b h. buffer_step\<^sup>*\<^sup>* (empty_heap, []) (h, [(b, ''226 ok'')]) \<and> read_buffer b h = Some ''226 ok''"
proof -
  obtain b h where m: "make_buffer ''226 ok'' empty_heap = (b, h)" by (cases "make_buffer ''226 ok'' empty_heap")
  obtain c h' where c: "copy_buffer b h = (c, h')" by (cases "copy_buffer b h")
  let ?d = "drop_buffer b h'"
  have "buffer_step\<^sup>*\<^sup>* (empty_heap, []) (h, [(b, ''226 ok'')])" using buffer_step.make [OF m, of "[]"] by blast
  also have "buffer_step (h, [(b, ''226 ok'')]) (h', [(c, ''226 ok''), (b, ''226 ok'')])"
    using buffer_step.copy [OF _ c, of "''226 ok''" "[(b, ''226 ok'')]"] by simp
  also have "buffer_step (h', [(c, ''226 ok''), (b, ''226 ok'')]) (?d, [(c, ''226 ok'')])"
    using buffer_step.drop [of b h' ?d "[(c, ''226 ok'')]" "''226 ok''" "[]"] by simp
  finally have r: "buffer_step\<^sup>*\<^sup>* (empty_heap, []) (?d, [(c, ''226 ok'')])" .
  with buffers_stay_readable [OF r] show ?thesis by auto
qed

text \<open>
  C31: Every standard reply is a well-formed line; the client can read it exactly when the table has a text for its code, which holds of ten of the nineteen codes.
\<close>

theorem code_replies:
  "reply_line (get_code_string c) \<and>
   build_resp (get_code_string c) =
     Inr (map_option (\<lambda>t. \<lparr>code = int (code_num c), msg = t @ crlf\<rparr>) (code_map c))"
proof (cases "code_map c")
  case None
  then show ?thesis by (simp add: reply_line_code build_resp_bare)
next
  case (Some t)
  then show ?thesis by (simp add: reply_line_code build_resp_code)
qed

text \<open>
  C32: A started server hands the connections that come in to its workers in turn, the k-th to worker k modulo their number.
\<close>

theorem server_round_robin:
  assumes "serving hw s" and "length xs < 2 ^ 32"
  shows "\<exists>t. accept_clients xs c s = Inr t \<and> map fst (assigned t) = map (\<lambda>k. k mod hw) [0..<length xs]"
proof -
  have i: "server_inv hw s" by (rule serving_inv [OF assms(1)])
  have a: "work_index s = 1" "assigned s = []"
    using assms(1) by (auto simp: serving_def new_server_def do_accept_def split: if_splits)
  with round_robin_steps [OF i, of xs c] assms(2) show ?thesis by simp
qed

lemma server_round_robin_witness:
  "\<exists>s t. serving 2 s \<and> accept_clients [(''a'', ''/'', 0, ()), (''b'', ''/'', 0, ()), (''c'', ''/'', 0, ())] global_config s = Inr t \<and>
           map fst (assigned t) = [0, 1, 0]"
proof -
  obtain s :: "unit server" where s: "serving 2 s" by (simp add: serving_def new_server_def do_accept_def)
  have "map (\<lambda>k. k mod 2) [0..<3] = [0, 1, 0 :: nat]" by code_simp
  then show ?thesis
    using s server_round_robin [OF s, of "[(''a'', ''/'', 0, ()), (''b'', ''/'', 0, ()), (''c'', ''/'', 0, ())]" global_config] by auto
qed

text \<open>
  C33: Reading a configuration: nine fields take the value of their key, a field without its key keeps the zero it had at start, and the upload limit is never read.
\<close>

theorem config_init:
  assumes "init (Parsed j) global_config = Inr c"
  shows "reads j ''port'' (json_u16 j) 0 (port c) \<and> reads j ''max_idle_timeout'' (json_int j) 0 (max_idle_timeout c) \<and>
    reads j ''ftpd_banner'' (json_string j) [] (ftpd_banner c) \<and>
    reads j ''data_connection_timeout'' (json_int j) 0 (data_connection_timeout c) \<and>
    reads j ''data_transfer_port'' (json_u16 j) 0 (data_transfer_port c) \<and>
    reads j ''use_local_time'' (json_bool j) False (use_local_time c) \<and>
    reads j ''anonymous_enable'' (json_bool j) False (anonymous_enable c) \<and>
    reads j ''write_enable'' (json_bool j) False (write_enable c) \<and>
    reads j ''download_speed_limit_in_kb_per_s'' (json_u16 j) 0 (download_speed_limit_in_kb_per_s c) \<and>
    upload_speed_limit_in_kb_per_s c = 0"
  using init_reads [OF assms] by (simp add: global_config_def)

lemma config_init_witness:
  "\<exists>c. init (Parsed \<lparr>json_contains = (\<lambda>k. k = ''port''), json_string = (\<lambda>k. Inl JsonException),
       json_int = (\<lambda>k. Inl JsonException), json_u16 = (\<lambda>k. Inr 2121), json_bool = (\<lambda>k. Inl JsonException)\<rparr>) global_config = Inr c \<and>
     port c = 2121 \<and> max_idle_timeout c = 0 \<and> max_idle_timeout declared_defaults = 20"
proof -
  let ?j = "\<lparr>json_contains = (\<lambda>k. k = ''port''), json_string = (\<lambda>k. Inl JsonException),
       json_int = (\<lambda>k. Inl JsonException), json_u16 = (\<lambda>k. Inr 2121), json_bool = (\<lambda>k. Inl JsonException)\<rparr>"
  obtain c where c: "init (Parsed ?j) global_config = Inr c" by (simp add: init_def set_field_def)
  with config_init [OF c] show ?thesis by (simp add: reads_def declared_defaults_def)
qed





text \<open>
  C36: When the read of an open session fails, or ends with no operator counted, the session is destroyed at once although its idle wait is pending, and the idle handler then uses freed memory.
\<close>

theorem read_error_frees_session:
  assumes "reachable E n0 s" and "\<not> destroyed s" and "\<not> stoped s" and "OnRead \<in> set (pending s)"
    and "ec_of e \<noteq> Success" and "ec_of e = Eof \<Longrightarrow> active_op_num s = 0"
  shows "\<exists>t. complete e OnRead s = Inr t \<and> deliverable OnIdle t \<and> (\<forall>e'. complete e' OnIdle t = Inl UseAfterFree)"
proof -
  have i: "op_inv n0 s" using assms(1) by (rule reachable_op_inv)
  have srv: "in_service s"
    using shaped.in_reachable [OF assms(1)] assms(2,4) by (intro alive_in_service [of s OnRead]) simp_all
  obtain t where t: "complete e OnRead s = Inr t" "destroyed t" "pending t = remove1 OnRead (pending s)"
    using read_error_drops [OF i srv assms(4-6)] by blast
  have "OnIdle \<in> set (pending t)" using idle_wait_pending [OF srv assms(3)] t(3) by simp
  with t(1,2) show ?thesis by (simp add: deliverable_def complete_def)
qed

lemma read_error_frees_session_witness:
  "\<exists>t. complete (failing_env OtherError) OnRead (after download_run) = Inr t \<and> deliverable OnIdle t \<and>
         complete calm_env OnIdle t = Inl UseAfterFree"
  using read_error_frees_session [OF after_any, of download_run "failing_env OtherError"] download_facts
  by (auto simp: failing_env_def)

text \<open>
  C37: After the end of the input the final reply cannot be written; its failed write empties the queue without cancelling the closing wait, and the session is never destroyed.
\<close>

theorem failed_final_reply_leaks_session:
  assumes "reachable E 0 s" and "next_op s < 2 ^ 32" and "\<not> destroyed s"
    and "OnKeepAlive \<in> set (pending s)" "operators s = []" "message_queue s \<noteq> []" and "ec_of e \<noteq> Success"
  shows "\<exists>t. complete e OnWrite s = Inr t \<and> (\<forall>u. (sess_step E)\<^sup>*\<^sup>* t u \<longrightarrow> \<not> destroyed u)"
proof -
  note f = timer_facts [OF assms(1)]
  have srv: "in_service s" using f assms(3,4) by (intro alive_in_service [of s OnKeepAlive]) simp_all
  have "op_inv 0 s" "clauses s" "few_ops s" using f assms(2) by (simp_all add: few_ops_def)
  then obtain t where t: "complete e OnWrite s = Inr t" "stranded t"
    using failed_write_strands [OF _ srv _ _ assms(4-7)] by blast
  have "stranded u" if "(sess_step E)\<^sup>*\<^sup>* t u" for u using stranding.steps_inv [OF that t(2)] .
  with t(1) show ?thesis by (auto simp: stranded_def)
qed

lemma failed_final_reply_leaks_session_witness:
  "\<exists>t. complete (failing_env OtherError) OnWrite (after deserted_run) = Inr t \<and>
         (\<forall>u. (sess_step anyenv)\<^sup>*\<^sup>* t u \<longrightarrow> \<not> destroyed u)"
proof -
  have "message_queue (after deserted_run) \<noteq> []" using deserted_facts by (cases "message_queue (after deserted_run)") auto
  then show ?thesis
    using failed_final_reply_leaks_session [OF after_any, of deserted_run "failing_env OtherError"] deserted_facts
    by (simp add: failing_env_def calm_env_def)
qed

text \<open>
  C38: When a write to the file fails during an upload, the loop counts a byte too many and never ends, whatever the later writes return; its worker is gone, and all sessions of that worker stay as they are for ever.
\<close>

theorem failed_write_stops_worker:
  assumes "assigned (srv p) ! k = (wk, x)" and "\<not> destroyed x"
    and "lookup_op i x = Some (Receiving f)" "data_socket x = Some SockOpen"
    and "ec_of e = Success" "available e = Inr n" "n \<noteq> 0"
    and "splices e = (SpData d, before @ - 1 # later) # rest" "d \<noteq> []"
    and "list_all (\<lambda>r. - 1 \<le> r) (before @ later)" "list_all (\<lambda>r. 1 \<le> r) before"
    and "total before < int (length d)" "total (before @ later) \<le> int (length d)"
    and "(process_step E c)\<^sup>*\<^sup>* (serve e k (OnRecvReady i) p) q"
    and "j < length (assigned (srv p))" "fst (assigned (srv p) ! j) = wk"
  shows "wk \<in> stuck q \<and> assigned (srv q) ! j = assigned (srv p) ! j"
proof -
  have "complete e (OnRecvReady i) (x\<lparr>world := files p\<rparr>) = Inl Hang"
    using failed_write_hangs [OF assms(2-9) _ _ assms(12,13)] assms(10,11) unfolding list_all_iff by blast
  from hang_starves [OF assms(1) this assms(14-16)] show ?thesis .
qed

lemma failed_write_stops_worker_witness:
  "\<exists>q. process_step anyenv sample_config
       (serve (calm_env\<lparr>available := Inr 4, splices := [(SpData ''data'', [1, - 1, 3, 0])]\<rparr>) 0 (OnRecvReady 3) two_clients) q \<and>
     files q = [] \<and> 0 \<in> stuck q \<and> assigned (srv q) ! 1 = (0, sample_start)"
proof -
  let ?e = "calm_env\<lparr>available := Inr 4, splices := [(SpData ''data'', [1, - 1, 3, 0])]\<rparr>"
  let ?f = "\<lparr>rf_fd = 6, rf_name = ''/srv/b'', rf_pipe = (7, 8), rf_token = True, rf_in_pipe = [], rf_written = []\<rparr>"
  let ?p = "serve ?e 0 (OnRecvReady 3) two_clients"
  have s: "process_step anyenv sample_config ?p (?p\<lparr>files := []\<rparr>)" by (rule process_step.outside)
  then have r: "(process_step anyenv sample_config)\<^sup>*\<^sup>* ?p (?p\<lparr>files := []\<rparr>)" by blast
  have l: "\<not> destroyed (after upload_run)" "lookup_op 3 (after upload_run) = Some (Receiving ?f)"
    "data_socket (after upload_run) = Some SockOpen"
    using upload_facts by (simp_all add: lookup_op_def)
  have e: "ec_of ?e = Success" "available ?e = Inr 4" "splices ?e = (SpData ''data'', [1] @ - 1 # [3, 0]) # []"
    by (simp_all add: calm_env_def)
  have t: "assigned (srv two_clients) ! 0 = (0, after upload_run)" "assigned (srv two_clients) ! 1 = (0, sample_start)"
    "1 < length (assigned (srv two_clients))"
    by (simp_all add: two_clients_def)
  from failed_write_stops_worker [OF t(1) l e(1,2) _ e(3) _ _ _ _ _ r t(3)] t(2) s
  show ?thesis by (intro exI [of _ "?p\<lparr>files := []\<rparr>"]) simp
qed

text \<open>
  C39: A file that has become shorter is sent for ever: when sendfile moves nothing, the transfer stands after any number of events where it stood at its start, with the next event already awaited and the client never told.
\<close>

theorem short_file_spins:
  assumes "reachable E 0 s" and "at_rest s" and "verified s"
    and "parse_line l (request s) = (True, \<lparr>command = ''RETR'', body = p\<rparr>)"
    and "file_served e s p n" and "acceptor s \<noteq> AccClosed" and "connection_ok e"
    and "n \<noteq> 0" and "\<forall>e \<in> set es. moves_nothing e"
  shows "\<exists>t h. execute ((brings l e, OnRead) # connect_with e (next_op s) @ data_events (next_op s) (OnSendReady (next_op s)) es) s = Some t \<and>
     in_transfer (next_op s) (Sending (opened_for e s p n)) [] [h] (Some SockOpen) t \<and>
     h \<in> {OnSendReady (next_op s), OnLimiter (next_op s)} \<and> sent t = sent s @ [get_code_string data_conn]"
proof -
  have "served_by s \<lparr>command = ''RETR'', body = p\<rparr> = Some SendFileOp" using assms(3) by (simp add: served_by_def registrations_def)
  from download_stalls [OF assms(2,4) this _ assms(6-9)] assms(5) show ?thesis by simp
qed

lemma short_file_spins_witness:
  "\<exists>t. execute ((brings (''retr a'' @ crlf) calm_env, OnRead) # connect_with calm_env 3 @
           data_events 3 (OnSendReady 3) (replicate 100 (calm_env\<lparr>sendfile_res := SfBytes 0\<rparr>))) (after passive_run) = Some t \<and>
       sent t = sent (after passive_run) @ [get_code_string data_conn]"
proof -
  let ?es = "replicate 100 (calm_env\<lparr>sendfile_res := SfBytes 0\<rparr>)"
  have v: "verified (after passive_run)" "acceptor (after passive_run) \<noteq> AccClosed" "next_op (after passive_run) = 3"
    using passive_facts by simp_all
  have p: "parse_line (''retr a'' @ crlf) (request (after passive_run)) = (True, \<lparr>command = ''RETR'', body = ''a''\<rparr>)" by code_simp
  have f: "file_served calm_env (after passive_run) ''a'' 5"
    using passive_facts by (simp add: file_served_def tree_os_def sample_tree_def get_target_path_def is_absolute_def path_append_def has_filename_def)
  have m: "\<forall>e \<in> set ?es. moves_nothing e" by (simp add: moves_nothing_def calm_env_def)
  from short_file_spins [OF after_any passive_rest v(1) p f v(2) calm_connection(1) _ m]
  show ?thesis unfolding v(3) by (auto simp del: execute.simps data_events.simps replicate.simps)
qed



end
